theory Spec2Isabelle
  imports Main "HOL-Library.Word"
begin

section \<open>Data model of \<open>src/components/messages.tsx\<close>\<close>

text \<open>
  A chat message has an id, a role and an ordered list of parts. The component filters on
  the two roles it displays, so a third role stands for every other one. The component
  guards every read of \<open>parts\<close> (\<open>parts?.some\<close>, \<open>parts || []\<close>, \<open>parts?.length || 0\<close>),
  so the field is optional here. A part carries a type tag and, for text parts, a payload.
\<close>

datatype Role = User | Assistant | System

text \<open>
  The payload of a text part is a JavaScript string: a sequence of UTF-16 code units.
  Type tags and ids are only ever compared with ASCII literals or with each other.
\<close>

type_synonym js_string = "16 word list"

record Part =
  part_type :: string
  part_text :: "js_string option"

record ChatMessage =
  msg_id :: string
  role :: Role
  parts :: "Part list option"

datatype Status = Submitted | Streaming | Ready | Error

subsection \<open>JavaScript helpers\<close>

text \<open>\<open>String.prototype.startsWith\<close>.\<close>

definition startsWith :: "string \<Rightarrow> string \<Rightarrow> bool" where
  "startsWith s p = (take (length p) s = p)"

text \<open>
  \<open>String.prototype.trim\<close> strips the code units of ECMAScript's WhiteSpace and
  LineTerminator productions from both ends; all of them lie in the basic plane.
\<close>

definition js_whitespace :: "16 word \<Rightarrow> bool" where
  "js_whitespace c =
     (c \<in> {0x0009, 0x000A, 0x000B, 0x000C, 0x000D, 0x0020, 0x00A0, 0x1680,
            0x2000, 0x2001, 0x2002, 0x2003, 0x2004, 0x2005, 0x2006, 0x2007,
            0x2008, 0x2009, 0x200A, 0x2028, 0x2029, 0x202F, 0x205F, 0x3000, 0xFEFF})"

definition trim :: "js_string \<Rightarrow> js_string" where
  "trim s = rev (dropWhile js_whitespace (rev (dropWhile js_whitespace s)))"

text \<open>\<open>xs[xs.length - 1]\<close>: \<open>undefined\<close> on the empty array.\<close>

definition lastMessage :: "ChatMessage list \<Rightarrow> ChatMessage option" where
  "lastMessage ms = (if ms = [] then None else Some (ms ! (length ms - 1)))"

text \<open>\<open>message.parts || []\<close> and \<open>message.parts?.length || 0\<close>.\<close>

definition partsOrEmpty :: "ChatMessage \<Rightarrow> Part list" where
  "partsOrEmpty m = (case parts m of None \<Rightarrow> [] | Some ps \<Rightarrow> ps)"

definition partsCount :: "ChatMessage \<Rightarrow> nat" where
  "partsCount m = (case parts m of None \<Rightarrow> 0 | Some ps \<Rightarrow> length ps)"

section \<open>Derived status\<close>

definition memoizedMessages :: "ChatMessage list \<Rightarrow> ChatMessage list" where
  "memoizedMessages messages =
     filter (\<lambda>message.
        if role message = User then True
        else if role message = Assistant then True
        else False) messages"

definition hasActiveToolInvocations :: "ChatMessage list \<Rightarrow> Status \<Rightarrow> bool" where
  "hasActiveToolInvocations messages status =
     (case lastMessage (memoizedMessages messages) of
        None \<Rightarrow> False
      | Some lm \<Rightarrow>
          if status = Streaming \<and> role lm = Assistant then
            (case parts lm of
               None \<Rightarrow> False
             | Some ps \<Rightarrow> list_ex (\<lambda>part. startsWith (part_type part) ''tool-'') ps)
          else False)"

text \<open>
  \<open>part.type === 'text' && part.text && part.text.trim() !== ''\<close>: the payload is
  present, not the empty string, and not empty after trimming.
\<close>

definition hasVisibleText :: "Part list \<Rightarrow> bool" where
  "hasVisibleText ps =
     list_ex (\<lambda>part. part_type part = ''text'' \<and>
        (case part_text part of None \<Rightarrow> False | Some t \<Rightarrow> t \<noteq> [] \<and> trim t \<noteq> [])) ps"

definition hasToolInvocations :: "Part list \<Rightarrow> bool" where
  "hasToolInvocations ps = list_ex (\<lambda>part. startsWith (part_type part) ''tool-'') ps"

text \<open>The error value is an \<open>Error\<close> object or \<open>null\<close>; an object is always truthy.\<close>

definition isMissingAssistantResponse ::
  "ChatMessage list \<Rightarrow> Status \<Rightarrow> 'e option \<Rightarrow> bool" where
  "isMissingAssistantResponse messages status error =
     (case lastMessage (memoizedMessages messages) of
        None \<Rightarrow> False
      | Some lm \<Rightarrow>
          if role lm = User \<and> status = Ready \<and> error = None then True
          else if role lm = Assistant \<and> status = Ready \<and> error = None then
            (let ps = partsOrEmpty lm;
                 hasVisibleContent = (hasVisibleText ps \<or> hasToolInvocations ps)
             in if \<not> hasVisibleContent then True else False)
          else False)"

definition shouldShowLoading :: "ChatMessage list \<Rightarrow> Status \<Rightarrow> bool" where
  "shouldShowLoading messages status =
     (if status = Submitted then True
      else if status = Streaming then
        (case lastMessage (memoizedMessages messages) of
           None \<Rightarrow> False
         | Some lm \<Rightarrow>
             if role lm = User then True
             else if role lm = Assistant then partsCount lm \<le> 1
             else False)
      else False)"

text \<open>
  The loop \<open>for (i = length - 1; i >= 0; i -= 1)\<close> over the displayed messages; the
  result is \<open>-1\<close> when no assistant message is found.
\<close>

function lastAssistantIndex_loop :: "ChatMessage list \<Rightarrow> int \<Rightarrow> int" where
  "lastAssistantIndex_loop ms i =
     (if i \<ge> 0 then
        (if nat i < length ms \<and> role (ms ! nat i) = Assistant then i
         else lastAssistantIndex_loop ms (i - 1))
      else -1)"
  by pat_completeness auto
termination
  by (relation "measure (\<lambda>(ms, i). nat (i + 1))") auto

declare lastAssistantIndex_loop.simps [simp del]

definition lastAssistantIndex :: "ChatMessage list \<Rightarrow> int" where
  "lastAssistantIndex messages =
     lastAssistantIndex_loop (memoizedMessages messages)
       (int (length (memoizedMessages messages)) - 1)"

definition activeAssistantIndex :: "ChatMessage list \<Rightarrow> Status \<Rightarrow> int" where
  "activeAssistantIndex messages status =
     (case lastMessage (memoizedMessages messages) of
        None \<Rightarrow> -1
      | Some lm \<Rightarrow>
          if status = Streaming \<and> role lm = Assistant
          then int (length (memoizedMessages messages)) - 1
          else -1)"

definition isActiveAssistantSkeleton :: "ChatMessage list \<Rightarrow> Status \<Rightarrow> bool" where
  "isActiveAssistantSkeleton messages status =
     (case lastMessage (memoizedMessages messages) of
        None \<Rightarrow> False
      | Some lm \<Rightarrow>
          if status = Streaming \<and> role lm = Assistant then partsCount lm \<le> 1
          else False)"

definition shouldReserveLoaderMinHeight :: "ChatMessage list \<Rightarrow> Status \<Rightarrow> bool" where
  "shouldReserveLoaderMinHeight messages status =
     (if status = Submitted then True
      else if status = Streaming \<and>
              ((case lastMessage (memoizedMessages messages) of
                  None \<Rightarrow> False | Some lm \<Rightarrow> role lm = User)
               \<or> isActiveAssistantSkeleton messages status) then True
      else False)"

text \<open>
  The \<open>shouldReduceHeight\<close> prop computed for the displayed message \<open>message\<close> at
  position \<open>index\<close> of the displayed sequence.
\<close>

definition shouldReduceHeight ::
  "ChatMessage list \<Rightarrow> Status \<Rightarrow> ChatMessage \<Rightarrow> nat \<Rightarrow> bool" where
  "shouldReduceHeight messages status message index =
     (if role message = Assistant then
        (if status = Submitted then True
         else if status = Streaming then
           (if activeAssistantIndex messages status \<noteq> -1 then
              (if int index = activeAssistantIndex messages status
               then isActiveAssistantSkeleton messages status
               else True)
            else True)
         else int index \<noteq> lastAssistantIndex messages)
      else False)"

text \<open>
  The component returns \<open>null\<close> for an empty displayed sequence; otherwise the loading
  block is rendered exactly when \<open>shouldShowLoading\<close> holds.
\<close>

definition loadingIndicatorRendered :: "ChatMessage list \<Rightarrow> Status \<Rightarrow> bool" where
  "loadingIndicatorRendered messages status =
     (if length (memoizedMessages messages) = 0 then False
      else shouldShowLoading messages status)"

section \<open>Derived status on parts without a tag\<close>

text \<open>
  The message type gives every part a \<open>type\<close> tag. Two of the derived-status
  computations call \<open>part.type.startsWith\<close> with no guard, which throws a \<open>TypeError\<close>
  on a part whose tag is missing; every other read of the computations is behind \<open>?.\<close>
  or behind a test of the role. Here the tag is optional, the two computations return
  the error or their value, and the computations of one render are taken together: the
  render fails when one of them does.
\<close>

record RawPart =
  raw_type :: "string option"
  raw_text :: "js_string option"

record RawMessage =
  raw_id :: string
  raw_role :: Role
  raw_parts :: "RawPart list option"

datatype JsError = TypeError

text \<open>
  \<open>Array.prototype.some\<close> with a callback that may throw: the elements are tested in
  order, the first \<open>true\<close> ends the scan, and an exception of the callback leaves it.
\<close>

fun some_throwing :: "('a \<Rightarrow> JsError + bool) \<Rightarrow> 'a list \<Rightarrow> JsError + bool" where
  "some_throwing f [] = Inr False"
| "some_throwing f (x # xs) =
     (case f x of
        Inl e \<Rightarrow> Inl e
      | Inr b \<Rightarrow> if b then Inr True else some_throwing f xs)"

text \<open>\<open>part.type.startsWith('tool-')\<close>.\<close>

definition raw_isToolPart :: "RawPart \<Rightarrow> JsError + bool" where
  "raw_isToolPart part =
     (case raw_type part of
        None \<Rightarrow> Inl TypeError
      | Some t \<Rightarrow> Inr (startsWith t ''tool-''))"

definition raw_memoizedMessages :: "RawMessage list \<Rightarrow> RawMessage list" where
  "raw_memoizedMessages messages =
     filter (\<lambda>message.
        if raw_role message = User then True
        else if raw_role message = Assistant then True
        else False) messages"

definition raw_lastMessage :: "RawMessage list \<Rightarrow> RawMessage option" where
  "raw_lastMessage ms = (if ms = [] then None else Some (ms ! (length ms - 1)))"

definition raw_partsOrEmpty :: "RawMessage \<Rightarrow> RawPart list" where
  "raw_partsOrEmpty m = (case raw_parts m of None \<Rightarrow> [] | Some ps \<Rightarrow> ps)"

definition raw_hasActiveToolInvocations :: "RawMessage list \<Rightarrow> Status \<Rightarrow> JsError + bool" where
  "raw_hasActiveToolInvocations messages status =
     (case raw_lastMessage (raw_memoizedMessages messages) of
        None \<Rightarrow> Inr False
      | Some lm \<Rightarrow>
          if status = Streaming \<and> raw_role lm = Assistant then
            (case raw_parts lm of
               None \<Rightarrow> Inr False
             | Some ps \<Rightarrow> some_throwing raw_isToolPart ps)
          else Inr False)"

text \<open>
  In the second case both \<open>hasVisibleText\<close> and \<open>hasToolInvocations\<close> are computed, in
  this order, before either is used; \<open>part.type === 'text'\<close> is false on a missing tag.
\<close>

definition raw_isMissingAssistantResponse ::
  "RawMessage list \<Rightarrow> Status \<Rightarrow> 'e option \<Rightarrow> JsError + bool" where
  "raw_isMissingAssistantResponse messages status error =
     (case raw_lastMessage (raw_memoizedMessages messages) of
        None \<Rightarrow> Inr False
      | Some lm \<Rightarrow>
          if raw_role lm = User \<and> status = Ready \<and> error = None then Inr True
          else if raw_role lm = Assistant \<and> status = Ready \<and> error = None then
            (let ps = raw_partsOrEmpty lm;
                 visibleText = list_ex (\<lambda>part. raw_type part = Some ''text'' \<and>
                    (case raw_text part of None \<Rightarrow> False | Some t \<Rightarrow> t \<noteq> [] \<and> trim t \<noteq> [])) ps
             in case some_throwing raw_isToolPart ps of
                  Inl e \<Rightarrow> Inl e
                | Inr toolInvocations \<Rightarrow>
                    (let hasVisibleContent = (visibleText \<or> toolInvocations)
                     in if \<not> hasVisibleContent then Inr True else Inr False))
          else Inr False)"

definition raw_partsCount :: "RawMessage \<Rightarrow> nat" where
  "raw_partsCount m = (case raw_parts m of None \<Rightarrow> 0 | Some ps \<Rightarrow> length ps)"

definition raw_shouldShowLoading :: "RawMessage list \<Rightarrow> Status \<Rightarrow> bool" where
  "raw_shouldShowLoading messages status =
     (if status = Submitted then True
      else if status = Streaming then
        (case raw_lastMessage (raw_memoizedMessages messages) of
           None \<Rightarrow> False
         | Some lm \<Rightarrow>
             if raw_role lm = User then True
             else if raw_role lm = Assistant then raw_partsCount lm \<le> 1
             else False)
      else False)"

function raw_lastAssistantIndex_loop :: "RawMessage list \<Rightarrow> int \<Rightarrow> int" where
  "raw_lastAssistantIndex_loop ms i =
     (if i \<ge> 0 then
        (if nat i < length ms \<and> raw_role (ms ! nat i) = Assistant then i
         else raw_lastAssistantIndex_loop ms (i - 1))
      else -1)"
  by pat_completeness auto
termination
  by (relation "measure (\<lambda>(ms, i). nat (i + 1))") auto

declare raw_lastAssistantIndex_loop.simps [simp del]

definition raw_lastAssistantIndex :: "RawMessage list \<Rightarrow> int" where
  "raw_lastAssistantIndex messages =
     raw_lastAssistantIndex_loop (raw_memoizedMessages messages)
       (int (length (raw_memoizedMessages messages)) - 1)"

definition raw_activeAssistantIndex :: "RawMessage list \<Rightarrow> Status \<Rightarrow> int" where
  "raw_activeAssistantIndex messages status =
     (case raw_lastMessage (raw_memoizedMessages messages) of
        None \<Rightarrow> -1
      | Some lm \<Rightarrow>
          if status = Streaming \<and> raw_role lm = Assistant
          then int (length (raw_memoizedMessages messages)) - 1
          else -1)"

definition raw_isActiveAssistantSkeleton :: "RawMessage list \<Rightarrow> Status \<Rightarrow> bool" where
  "raw_isActiveAssistantSkeleton messages status =
     (case raw_lastMessage (raw_memoizedMessages messages) of
        None \<Rightarrow> False
      | Some lm \<Rightarrow>
          if status = Streaming \<and> raw_role lm = Assistant then raw_partsCount lm \<le> 1
          else False)"

definition raw_shouldReserveLoaderMinHeight :: "RawMessage list \<Rightarrow> Status \<Rightarrow> bool" where
  "raw_shouldReserveLoaderMinHeight messages status =
     (if status = Submitted then True
      else if status = Streaming \<and>
              ((case raw_lastMessage (raw_memoizedMessages messages) of
                  None \<Rightarrow> False | Some lm \<Rightarrow> raw_role lm = User)
               \<or> raw_isActiveAssistantSkeleton messages status) then True
      else False)"

definition raw_shouldReduceHeight ::
  "RawMessage list \<Rightarrow> Status \<Rightarrow> RawMessage \<Rightarrow> nat \<Rightarrow> bool" where
  "raw_shouldReduceHeight messages status message index =
     (if raw_role message = Assistant then
        (if status = Submitted then True
         else if status = Streaming then
           (if raw_activeAssistantIndex messages status \<noteq> -1 then
              (if int index = raw_activeAssistantIndex messages status
               then raw_isActiveAssistantSkeleton messages status
               else True)
            else True)
         else int index \<noteq> raw_lastAssistantIndex messages)
      else False)"

text \<open>
  The derived status of one render: the computations in the order of the source, the
  per-turn flag for each displayed turn with its index.
\<close>

record DerivedStatus =
  ds_hasActiveToolInvocations :: bool
  ds_isMissingAssistantResponse :: bool
  ds_shouldShowLoading :: bool
  ds_lastAssistantIndex :: int
  ds_activeAssistantIndex :: int
  ds_isActiveAssistantSkeleton :: bool
  ds_shouldReserveLoaderMinHeight :: bool
  ds_shouldReduceHeight :: "bool list"

definition derivedStatus ::
  "RawMessage list \<Rightarrow> Status \<Rightarrow> 'e option \<Rightarrow> JsError + DerivedStatus" where
  "derivedStatus messages status error =
     (case raw_hasActiveToolInvocations messages status of
        Inl e \<Rightarrow> Inl e
      | Inr active \<Rightarrow>
          (case raw_isMissingAssistantResponse messages status error of
             Inl e \<Rightarrow> Inl e
           | Inr missing \<Rightarrow>
               Inr \<lparr>ds_hasActiveToolInvocations = active,
                    ds_isMissingAssistantResponse = missing,
                    ds_shouldShowLoading = raw_shouldShowLoading messages status,
                    ds_lastAssistantIndex = raw_lastAssistantIndex messages,
                    ds_activeAssistantIndex = raw_activeAssistantIndex messages status,
                    ds_isActiveAssistantSkeleton = raw_isActiveAssistantSkeleton messages status,
                    ds_shouldReserveLoaderMinHeight =
                      raw_shouldReserveLoaderMinHeight messages status,
                    ds_shouldReduceHeight =
                      map (\<lambda>(index, message).
                            raw_shouldReduceHeight messages status message index)
                        (enumerate 0 (raw_memoizedMessages messages))\<rparr>))"

text \<open>A message of the message type, seen as a raw message: every part carries its tag.\<close>

definition tagged_part :: "Part \<Rightarrow> RawPart" where
  "tagged_part p = \<lparr>raw_type = Some (part_type p), raw_text = part_text p\<rparr>"

definition tagged :: "ChatMessage \<Rightarrow> RawMessage" where
  "tagged m =
     \<lparr>raw_id = msg_id m, raw_role = role m,
      raw_parts = (case parts m of None \<Rightarrow> None | Some ps \<Rightarrow> Some (map tagged_part ps))\<rparr>"

section \<open>Active reasoning segments\<close>

text \<open>
  The list computed inside the reasoning scroller's timeout: every part of every message,
  paired with its two indices, kept when it is tagged \<open>reasoning\<close> and no part after it
  in the same message is tagged \<open>text\<close> or \<open>tool-invocation\<close>.
\<close>

record PartInfo =
  info_part :: Part
  info_messageIndex :: nat
  info_partIndex :: nat

definition activeReasoning :: "ChatMessage list \<Rightarrow> PartInfo list" where
  "activeReasoning messages =
     concat (map (\<lambda>(messageIndex, message).
        filter (\<lambda>info.
            let message = messages ! info_messageIndex info
            in \<not> list_ex (\<lambda>(i, p). i > info_partIndex info \<and>
                    (part_type p = ''text'' \<or> part_type p = ''tool-invocation''))
                 (enumerate 0 (partsOrEmpty message)))
          (filter (\<lambda>info. part_type (info_part info) = ''reasoning'')
             (map (\<lambda>(partIndex, part).
                  \<lparr>info_part = part, info_messageIndex = messageIndex, info_partIndex = partIndex\<rparr>)
                (enumerate 0 (partsOrEmpty message)))))
       (enumerate 0 messages))"

text \<open>The test the filters above apply to one part of one message.\<close>

definition isReasoningActive :: "ChatMessage \<Rightarrow> nat \<Rightarrow> bool" where
  "isReasoningActive message partIndex =
     (partIndex < length (partsOrEmpty message) \<and>
      part_type (partsOrEmpty message ! partIndex) = ''reasoning'' \<and>
      \<not> list_ex (\<lambda>(i, p). i > partIndex \<and>
            (part_type p = ''text'' \<or> part_type p = ''tool-invocation''))
         (enumerate 0 (partsOrEmpty message)))"

section \<open>Retry\<close>

text \<open>
  \<open>handleRetry\<close> reads the message sequence and the user, awaits two external calls and
  sets two pieces of the caller's state. The state below holds what the caller holds and
  the calls made so far; the two awaited promises either resolve or reject.
\<close>

datatype Outcome = Resolves | Rejects

datatype Call =
    DeleteTrailingMessages string
  | SetMessages "ChatMessage list"
  | SetSuggestedQuestions "string list"
  | Regenerate
  | ConsoleError

record RetryState =
  local_messages :: "ChatMessage list"
  suggestedQuestions :: "string list"
  calls :: "Call list"

text \<open>\<open>Array.prototype.findLast\<close>.\<close>

definition findLast :: "('a \<Rightarrow> bool) \<Rightarrow> 'a list \<Rightarrow> 'a option" where
  "findLast P xs = find P (rev xs)"

text \<open>The loop that pushes messages until it has pushed one with the given id.\<close>

fun newMessages_loop :: "ChatMessage list \<Rightarrow> string \<Rightarrow> ChatMessage list" where
  "newMessages_loop [] lastId = []"
| "newMessages_loop (m # ms) lastId =
     m # (if msg_id m = lastId then [] else newMessages_loop ms lastId)"

text \<open>
  The body of the \<open>try\<close> block: \<open>Inl\<close> is the state at the point where an awaited call
  rejected, \<open>Inr\<close> the state after the body ran to its end or returned early.
\<close>

definition handleRetry_try ::
  "'u option \<Rightarrow> (string \<Rightarrow> Outcome) \<Rightarrow> Outcome \<Rightarrow> RetryState \<Rightarrow> RetryState + RetryState" where
  "handleRetry_try user deleteTrailingMessages regenerate s =
     (case findLast (\<lambda>m. role m = User) (local_messages s) of
        None \<Rightarrow> Inr s
      | Some lastUserMessage \<Rightarrow>
          (case (if user \<noteq> None \<and> msg_id lastUserMessage \<noteq> [] then
                   (let s1 = s\<lparr>calls := calls s @ [DeleteTrailingMessages (msg_id lastUserMessage)]\<rparr>
                    in if deleteTrailingMessages (msg_id lastUserMessage) = Rejects
                       then Inl s1 else Inr s1)
                 else Inr s) of
             Inl s1 \<Rightarrow> Inl s1
           | Inr s1 \<Rightarrow>
               (let newMessages = newMessages_loop (local_messages s) (msg_id lastUserMessage);
                    s2 = s1\<lparr>local_messages := newMessages,
                            calls := calls s1 @ [SetMessages newMessages]\<rparr>;
                    s3 = s2\<lparr>suggestedQuestions := [],
                            calls := calls s2 @ [SetSuggestedQuestions []]\<rparr>;
                    s4 = s3\<lparr>calls := calls s3 @ [Regenerate]\<rparr>
                in if regenerate = Rejects then Inl s4 else Inr s4)))"

definition handleRetry ::
  "'u option \<Rightarrow> (string \<Rightarrow> Outcome) \<Rightarrow> Outcome \<Rightarrow> RetryState \<Rightarrow> RetryState" where
  "handleRetry user deleteTrailingMessages regenerate s =
     (case handleRetry_try user deleteTrailingMessages regenerate s of
        Inl s' \<Rightarrow> s'\<lparr>calls := calls s' @ [ConsoleError]\<rparr>
      | Inr s' \<Rightarrow> s')"

section \<open>Scroll coordination\<close>

text \<open>
  The two scrollers share the host's timer table. A timer has an id, the delay it was
  scheduled with, and a callback. The main scroller's callback reads only the end-of-list
  ref; the reasoning scroller's callback closes over the \<open>messages\<close> array of the render
  that scheduled it, so it holds a reference into a store of arrays.
\<close>

datatype Callback = MainScrollCallback | ReasoningScrollCallback nat

record View =
  heap :: "nat \<Rightarrow> ChatMessage list"
  props_messages :: nat
  props_status :: Status
  memoizedLength :: nat
  timers :: "(nat \<times> nat \<times> Callback) list"
  nextTimerId :: nat
  scrollTimeoutRef :: "nat option"
  reasoningScrollTimeoutRef :: "nat option"
  messagesEndRef :: bool
  reasoningScrollRef :: bool
  hasInitialScrolled :: bool
  instantScrolls :: nat
  mainScrolls :: nat
  reasoningScrolls :: nat

definition setTimeout :: "Callback \<Rightarrow> nat \<Rightarrow> View \<Rightarrow> nat \<times> View" where
  "setTimeout cb delay v =
     (nextTimerId v,
      v\<lparr>timers := timers v @ [(nextTimerId v, delay, cb)], nextTimerId := nextTimerId v + 1\<rparr>)"

definition clearTimeout :: "nat \<Rightarrow> View \<Rightarrow> View" where
  "clearTimeout tid v = v\<lparr>timers := filter (\<lambda>t. fst t \<noteq> tid) (timers v)\<rparr>"

definition debouncedScroll :: "Status \<Rightarrow> View \<Rightarrow> View" where
  "debouncedScroll status v =
     (let v1 = (case scrollTimeoutRef v of None \<Rightarrow> v | Some tid \<Rightarrow> clearTimeout tid v);
          (tid, v2) = setTimeout MainScrollCallback (if status = Streaming then 100 else 0) v1
      in v2\<lparr>scrollTimeoutRef := Some tid\<rparr>)"

text \<open>The auto-scroll effect, run with the current status and displayed-message count.\<close>

definition autoScrollEffect :: "Status \<Rightarrow> nat \<Rightarrow> View \<Rightarrow> View" where
  "autoScrollEffect status n v =
     (if messagesEndRef v then
        (if status = Streaming \<or> status = Submitted then debouncedScroll status v
         else if hasInitialScrolled v \<and> n > 0 then v\<lparr>mainScrolls := mainScrolls v + 1\<rparr>
         else v)
      else v)"

text \<open>The reasoning-scroll effect, run with the array reference and status of a render.\<close>

definition reasoningScrollEffect :: "nat \<Rightarrow> Status \<Rightarrow> View \<Rightarrow> View" where
  "reasoningScrollEffect messages status v =
     (let v1 = (case reasoningScrollTimeoutRef v of None \<Rightarrow> v | Some tid \<Rightarrow> clearTimeout tid v);
          (tid, v2) = setTimeout (ReasoningScrollCallback messages)
                        (if status = Streaming then 150 else 0) v1
      in v2\<lparr>reasoningScrollTimeoutRef := Some tid\<rparr>)"

definition runCallback :: "Callback \<Rightarrow> View \<Rightarrow> View" where
  "runCallback cb v =
     (case cb of
        MainScrollCallback \<Rightarrow>
          if messagesEndRef v then v\<lparr>mainScrolls := mainScrolls v + 1\<rparr> else v
      | ReasoningScrollCallback messages \<Rightarrow>
          if length (activeReasoning (heap v messages)) > 0 \<and> reasoningScrollRef v
          then v\<lparr>reasoningScrolls := reasoningScrolls v + 1\<rparr> else v)"

text \<open>A pending timer expires: it leaves the table and its callback runs.\<close>

definition fireTimer :: "nat \<Rightarrow> View \<Rightarrow> View" where
  "fireTimer tid v =
     (case find (\<lambda>t. fst t = tid) (timers v) of
        None \<Rightarrow> v
      | Some (_, _, cb) \<Rightarrow> runCallback cb (clearTimeout tid v))"

text \<open>
  A render with new props. The displayed sequence is recomputed only when the \<open>messages\<close>
  reference changes (it is memoized on it). The end-of-list element exists exactly when
  the displayed sequence is not empty. Then each effect whose dependencies changed runs:
  the auto-scroll effect on a change of the displayed-message count or of the status, the
  reasoning-scroll effect on a change of the \<open>messages\<close> reference or of the status.
\<close>

definition render :: "nat \<Rightarrow> Status \<Rightarrow> View \<Rightarrow> View" where
  "render messages status v =
     (let n = (if messages = props_messages v then memoizedLength v
               else length (memoizedMessages (heap v messages)));
          autoDeps = (n \<noteq> memoizedLength v \<or> status \<noteq> props_status v);
          reasoningDeps = (messages \<noteq> props_messages v \<or> status \<noteq> props_status v);
          v0 = v\<lparr>props_messages := messages, props_status := status, memoizedLength := n,
                 messagesEndRef := (n \<noteq> 0)\<rparr>;
          v1 = (if autoDeps then autoScrollEffect status n v0 else v0)
      in if reasoningDeps then reasoningScrollEffect messages status v1 else v1)"

text \<open>
  The initial-scroll effect: once, for a view opened on an existing chat, an instant
  scroll to the end; it sets the one-shot flag.
\<close>

definition initialScrollEffect :: "bool \<Rightarrow> View \<Rightarrow> View" where
  "initialScrollEffect initialMessagesNonEmpty v =
     (if initialMessagesNonEmpty \<and> \<not> hasInitialScrolled v \<and> messagesEndRef v
      then v\<lparr>instantScrolls := instantScrolls v + 1, hasInitialScrolled := True\<rparr>
      else v)"

text \<open>
  The first render runs all three effects with the one-shot flag still unset. When the
  initial-scroll effect sets the flag, the view renders again and the auto-scroll effect,
  which depends on the flag, runs once more. Timer ids are positive, as the host's are.
  Nothing in the component attaches the reasoning ref, so it starts detached.
\<close>

definition mount :: "(nat \<Rightarrow> ChatMessage list) \<Rightarrow> nat \<Rightarrow> Status \<Rightarrow> bool \<Rightarrow> View" where
  "mount h messages status initialMessagesNonEmpty =
     (let n = length (memoizedMessages (h messages));
          v0 = \<lparr>heap = h, props_messages = messages, props_status = status, memoizedLength = n,
                timers = [], nextTimerId = 1, scrollTimeoutRef = None,
                reasoningScrollTimeoutRef = None, messagesEndRef = (n \<noteq> 0),
                reasoningScrollRef = False, hasInitialScrolled = False,
                instantScrolls = 0, mainScrolls = 0, reasoningScrolls = 0\<rparr>;
          v1 = reasoningScrollEffect messages status (autoScrollEffect status n v0);
          v2 = initialScrollEffect initialMessagesNonEmpty v1
      in if hasInitialScrolled v2 then autoScrollEffect status n v2 else v2)"

text \<open>
  What can happen to a mounted view: a render with new props, a write to an array of the
  store, and the expiry of a timer. No element of the component carries the reasoning
  ref, and the end-of-list ref follows the displayed sequence at each render.
\<close>

datatype Event =
    Render nat Status
  | Mutate nat "ChatMessage list"
  | Fire nat

fun step :: "Event \<Rightarrow> View \<Rightarrow> View" where
  "step (Render messages status) v = render messages status v"
| "step (Mutate r xs) v = v\<lparr>heap := (heap v)(r := xs)\<rparr>"
| "step (Fire tid) v = fireTimer tid v"

definition run :: "Event list \<Rightarrow> View \<Rightarrow> View" where
  "run evs v = fold step evs v"

text \<open>
  Timer ids are fresh and distinct, and the only pending timer of each scroller is the
  one its ref names.
\<close>

definition timers_tracked :: "View \<Rightarrow> bool" where
  "timers_tracked v =
     (distinct (map fst (timers v)) \<and>
      list_all (\<lambda>(tid, d, cb). tid < nextTimerId v \<and>
         (case cb of
            MainScrollCallback \<Rightarrow> scrollTimeoutRef v = Some tid
          | ReasoningScrollCallback r \<Rightarrow> reasoningScrollTimeoutRef v = Some tid)) (timers v))"

text \<open>
  Moreover, a pending reasoning-scroll callback holds the \<open>messages\<close> reference of the
  latest render.
\<close>

definition timers_wf :: "View \<Rightarrow> bool" where
  "timers_wf v =
     (timers_tracked v \<and>
      list_all (\<lambda>(tid, d, cb).
         (case cb of
            MainScrollCallback \<Rightarrow> True
          | ReasoningScrollCallback r \<Rightarrow> r = props_messages v)) (timers v))"

definition isMainTimer :: "nat \<times> nat \<times> Callback \<Rightarrow> bool" where
  "isMainTimer t = (snd (snd t) = MainScrollCallback)"

section \<open>Example inputs\<close>

abbreviation ex_text :: Part where
  "ex_text \<equiv> \<lparr>part_type = ''text'', part_text = Some [0x68, 0x69]\<rparr>"

abbreviation ex_reasoning :: Part where
  "ex_reasoning \<equiv> \<lparr>part_type = ''reasoning'', part_text = Some [0x68, 0x6D]\<rparr>"

abbreviation ex_tool :: Part where
  "ex_tool \<equiv> \<lparr>part_type = ''tool-web_search'', part_text = None\<rparr>"

abbreviation ex_user :: "string \<Rightarrow> ChatMessage" where
  "ex_user i \<equiv> \<lparr>msg_id = i, role = User, parts = Some [ex_text]\<rparr>"

abbreviation ex_assistant :: "string \<Rightarrow> Part list \<Rightarrow> ChatMessage" where
  "ex_assistant i ps \<equiv> \<lparr>msg_id = i, role = Assistant, parts = Some ps\<rparr>"

abbreviation ex_heap :: "nat \<Rightarrow> ChatMessage list" where
  "ex_heap \<equiv> (\<lambda>_. [])
     (0 := [ex_user ''u1'', ex_assistant ''a1'' [ex_reasoning]],
      2 := [ex_user ''u1'', ex_assistant ''a1'' [ex_reasoning, ex_text]])"


section \<open>Basic facts\<close>

lemma lastMessage_Nil [simp]: "lastMessage [] = None"
  by (simp add: lastMessage_def)

lemma lastMessage_snoc [simp]: "lastMessage (ms @ [m]) = Some m"
  by (simp add: lastMessage_def)

lemma lastMessage_cases:
  obtains (empty) "ms = []" "lastMessage ms = None"
        | (snoc) ms' m where "ms = ms' @ [m]" "lastMessage ms = Some m"
proof (cases ms rule: rev_cases)
  case Nil
  then show ?thesis using empty by simp
next
  case (snoc ms' m)
  then show ?thesis using that(2) by simp
qed

lemma memoizedMessages_Nil [simp]: "memoizedMessages [] = []"
  by (simp add: memoizedMessages_def)

lemma memoizedMessages_roles:
  "m \<in> set (memoizedMessages ms) \<Longrightarrow> role m = User \<or> role m = Assistant"
  by (auto simp: memoizedMessages_def split: if_splits)

lemma memoizedMessages_id:
  "list_all (\<lambda>m. role m = User \<or> role m = Assistant) ms \<Longrightarrow> memoizedMessages ms = ms"
  by (induction ms) (auto simp: memoizedMessages_def)

lemma lastMessage_memoized_role:
  "lastMessage (memoizedMessages ms) = Some lm \<Longrightarrow> role lm = User \<or> role lm = Assistant"
proof -
  assume h: "lastMessage (memoizedMessages ms) = Some lm"
  then have "memoizedMessages ms \<noteq> []"
    by (auto simp: lastMessage_def split: if_splits)
  with h have "lm = last (memoizedMessages ms)"
    by (simp add: lastMessage_def last_conv_nth)
  with \<open>memoizedMessages ms \<noteq> []\<close> have "lm \<in> set (memoizedMessages ms)"
    by simp
  then show ?thesis by (rule memoizedMessages_roles)
qed

lemma trim_eq_Nil_iff: "trim s = [] \<longleftrightarrow> (\<forall>c \<in> set s. js_whitespace c)"
proof
  assume "trim s = []"
  then have all: "\<forall>c \<in> set (dropWhile js_whitespace s). js_whitespace c"
    by (simp add: trim_def)
  have "dropWhile js_whitespace s = []"
  proof (rule ccontr)
    assume ne: "dropWhile js_whitespace s \<noteq> []"
    then have "\<not> js_whitespace (hd (dropWhile js_whitespace s))"
      by (rule hd_dropWhile)
    moreover from ne have "hd (dropWhile js_whitespace s) \<in> set (dropWhile js_whitespace s)"
      by simp
    ultimately show False using all by blast
  qed
  then show "\<forall>c \<in> set s. js_whitespace c"
    by simp
next
  assume "\<forall>c \<in> set s. js_whitespace c"
  then have d: "dropWhile js_whitespace s = []"
    by simp
  show "trim s = []"
    unfolding trim_def d by simp
qed

lemma hasVisibleText_iff:
  "hasVisibleText ps \<longleftrightarrow>
     (\<exists>p \<in> set ps. part_type p = ''text'' \<and>
        (\<exists>t. part_text p = Some t \<and> (\<exists>c \<in> set t. \<not> js_whitespace c)))"
proof -
  have vis: "(case part_text p of None \<Rightarrow> False | Some t \<Rightarrow> t \<noteq> [] \<and> trim t \<noteq> []) \<longleftrightarrow>
      (\<exists>t. part_text p = Some t \<and> (\<exists>c \<in> set t. \<not> js_whitespace c))" for p :: Part
    by (cases "part_text p") (auto simp: trim_eq_Nil_iff)
  show ?thesis
    unfolding hasVisibleText_def list_ex_iff vis ..
qed

subsection \<open>The backward scan for the last assistant message\<close>

lemma lastAssistantIndex_loop_hit:
  "lastAssistantIndex_loop ms i = r \<Longrightarrow> 0 \<le> r \<Longrightarrow>
     r \<le> i \<and> nat r < length ms \<and> role (ms ! nat r) = Assistant"
proof (induction ms i rule: lastAssistantIndex_loop.induct)
  case (1 ms i)
  show ?case
  proof (cases "i \<ge> 0")
    case False
    with "1.prems" show ?thesis
      by (simp add: lastAssistantIndex_loop.simps [of ms i])
  next
    case True
    show ?thesis
    proof (cases "nat i < length ms \<and> role (ms ! nat i) = Assistant")
      case found: True
      with True "1.prems" show ?thesis
        by (simp add: lastAssistantIndex_loop.simps [of ms i])
    next
      case nf: False
      with True "1.prems" have "lastAssistantIndex_loop ms (i - 1) = r"
        by (simp add: lastAssistantIndex_loop.simps [of ms i])
      with "1.IH" [OF True nf] "1.prems"(2) show ?thesis
        by simp
    qed
  qed
qed

lemma lastAssistantIndex_loop_none_after:
  "lastAssistantIndex_loop ms i = r \<Longrightarrow> r < int j \<Longrightarrow> int j \<le> i \<Longrightarrow> j < length ms \<Longrightarrow>
     role (ms ! j) \<noteq> Assistant"
proof (induction ms i rule: lastAssistantIndex_loop.induct)
  case (1 ms i)
  from "1.prems" have nonneg: "i \<ge> 0" by simp
  show ?case
  proof (cases "nat i < length ms \<and> role (ms ! nat i) = Assistant")
    case found: True
    with nonneg "1.prems" show ?thesis
      by (simp add: lastAssistantIndex_loop.simps [of ms i])
  next
    case nf: False
    with nonneg "1.prems" have rec: "lastAssistantIndex_loop ms (i - 1) = r"
      by (simp add: lastAssistantIndex_loop.simps [of ms i])
    show ?thesis
    proof (cases "int j = i")
      case True
      with nf "1.prems"(4) show ?thesis by auto
    next
      case False
      with "1.prems"(3) have "int j \<le> i - 1" by simp
      with "1.IH" [OF nonneg nf rec "1.prems"(2)] "1.prems"(4) show ?thesis
        by simp
    qed
  qed
qed

lemma lastAssistantIndex_loop_lower: "- 1 \<le> lastAssistantIndex_loop ms i"
proof (induction ms i rule: lastAssistantIndex_loop.induct)
  case (1 ms i)
  then show ?case
    by (simp add: lastAssistantIndex_loop.simps [of ms i])
qed

lemma not_lastAssistantIndex_iff:
  assumes "index < length (memoizedMessages messages)"
    and "role (memoizedMessages messages ! index) = Assistant"
  shows "int index \<noteq> lastAssistantIndex messages \<longleftrightarrow>
     (\<exists>j. index < j \<and> j < length (memoizedMessages messages) \<and>
          role (memoizedMessages messages ! j) = Assistant)"
proof -
  let ?mm = "memoizedMessages messages"
  let ?r = "lastAssistantIndex messages"
  have r: "lastAssistantIndex_loop ?mm (int (length ?mm) - 1) = ?r"
    by (simp add: lastAssistantIndex_def)
  have ge: "int index \<le> ?r"
  proof (rule ccontr)
    assume "\<not> int index \<le> ?r"
    then have "?r < int index" by simp
    from lastAssistantIndex_loop_none_after [OF r this _ assms(1)] assms
    show False by simp
  qed
  show ?thesis
  proof
    assume "int index \<noteq> ?r"
    with ge have gt: "int index < ?r" by simp
    then have "0 \<le> ?r" by simp
    from lastAssistantIndex_loop_hit [OF r this] gt
    have "index < nat ?r \<and> nat ?r < length ?mm \<and> role (?mm ! nat ?r) = Assistant"
      by simp
    then show "\<exists>j. index < j \<and> j < length ?mm \<and> role (?mm ! j) = Assistant"
      by blast
  next
    assume "\<exists>j. index < j \<and> j < length ?mm \<and> role (?mm ! j) = Assistant"
    then obtain j where j: "index < j" "j < length ?mm" "role (?mm ! j) = Assistant"
      by blast
    have "\<not> ?r < int j"
    proof
      assume "?r < int j"
      from lastAssistantIndex_loop_none_after [OF r this _ j(2)] j show False by simp
    qed
    with j(1) show "int index \<noteq> ?r" by simp
  qed
qed

lemma lastAssistantIndex_Nil: "lastAssistantIndex [] = - 1"
  by (simp add: lastAssistantIndex_def lastAssistantIndex_loop.simps)

section \<open>Derived status: the loading indicator\<close>

text \<open>
  Claim C5. The loading indicator is shown iff the status is submitted, or the status is
  streaming and the last displayed turn is a user turn or an assistant turn with at most
  one part. With \<open>[user, assistant with one part]\<close> and status streaming it is shown;
  after a second part is appended to that assistant turn it is not.
\<close>

theorem shouldShowLoading_iff:
  "(shouldShowLoading messages status \<longleftrightarrow>
      (status = Submitted \<or>
       (status = Streaming \<and>
        (\<exists>lm. lastMessage (memoizedMessages messages) = Some lm \<and>
              (role lm = User \<or> (role lm = Assistant \<and> partsCount lm \<le> 1))))))
   \<and> shouldShowLoading [ex_user ''u1'', ex_assistant ''a1'' [ex_text]] Streaming
   \<and> \<not> shouldShowLoading [ex_user ''u1'', ex_assistant ''a1'' [ex_text, ex_text]] Streaming"
proof (intro conjI)
  show "shouldShowLoading messages status \<longleftrightarrow>
      (status = Submitted \<or>
       (status = Streaming \<and>
        (\<exists>lm. lastMessage (memoizedMessages messages) = Some lm \<and>
              (role lm = User \<or> (role lm = Assistant \<and> partsCount lm \<le> 1)))))"
    by (cases status; cases "lastMessage (memoizedMessages messages)")
       (auto simp: shouldShowLoading_def)
qed (simp_all add: shouldShowLoading_def memoizedMessages_def lastMessage_def partsCount_def)

text \<open>
  Claim C10. Whenever the loader's minimum height is reserved, the loading indicator is
  shown.
\<close>

theorem reserve_implies_loading:
  "shouldReserveLoaderMinHeight messages status \<Longrightarrow> shouldShowLoading messages status"
  by (cases "lastMessage (memoizedMessages messages)")
     (auto simp: shouldReserveLoaderMinHeight_def shouldShowLoading_def
        isActiveAssistantSkeleton_def split: if_splits)

theorem reserve_implies_loading_witness:
  "shouldReserveLoaderMinHeight [ex_user ''u1'', ex_assistant ''a1'' [ex_text]] Streaming
   \<and> shouldShowLoading [ex_user ''u1'', ex_assistant ''a1'' [ex_text]] Streaming"
proof -
  have h: "shouldReserveLoaderMinHeight [ex_user ''u1'', ex_assistant ''a1'' [ex_text]] Streaming"
    by (simp add: shouldReserveLoaderMinHeight_def isActiveAssistantSkeleton_def
        memoizedMessages_def lastMessage_def partsCount_def)
  from h reserve_implies_loading [OF h] show ?thesis by simp
qed

section \<open>Derived status: the missing response\<close>

text \<open>
  Claim C4. \<open>isMissingAssistantResponse\<close> holds iff the status is ready, no error is set,
  and the last displayed turn is a user turn, or an assistant turn with neither a text
  part holding a non-whitespace character nor a part whose tag starts with \<open>tool-\<close>.
  It is false whenever an error is set.
\<close>

theorem isMissingAssistantResponse_iff:
  "(isMissingAssistantResponse messages status error \<longleftrightarrow>
      (status = Ready \<and> error = None \<and>
       (\<exists>lm. lastMessage (memoizedMessages messages) = Some lm \<and>
          (role lm = User \<or>
           (role lm = Assistant \<and>
            \<not> (\<exists>p \<in> set (partsOrEmpty lm). part_type p = ''text'' \<and>
                  (\<exists>t. part_text p = Some t \<and> (\<exists>c \<in> set t. \<not> js_whitespace c))) \<and>
            \<not> (\<exists>p \<in> set (partsOrEmpty lm). startsWith (part_type p) ''tool-''))))))
   \<and> \<not> isMissingAssistantResponse messages status (Some e)"
  by (cases "lastMessage (memoizedMessages messages)")
     (auto simp: isMissingAssistantResponse_def hasVisibleText_iff hasToolInvocations_def
        list_ex_iff Let_def)

section \<open>Derived status: failure and the empty sequence\<close>

lemma some_throwing_tagged:
  "\<forall>p \<in> set ps. raw_type p \<noteq> None \<Longrightarrow> \<exists>b. some_throwing raw_isToolPart ps = Inr b"
  by (induction ps) (auto simp: raw_isToolPart_def)

lemma raw_lastMessage_mem:
  "raw_lastMessage (raw_memoizedMessages messages) = Some lm \<Longrightarrow> lm \<in> set messages"
proof -
  assume h: "raw_lastMessage (raw_memoizedMessages messages) = Some lm"
  then have ne: "raw_memoizedMessages messages \<noteq> []"
    by (auto simp: raw_lastMessage_def split: if_splits)
  with h have "lm = last (raw_memoizedMessages messages)"
    by (simp add: raw_lastMessage_def last_conv_nth)
  with ne have "lm \<in> set (raw_memoizedMessages messages)"
    by simp
  then show ?thesis
    by (simp add: raw_memoizedMessages_def)
qed

lemma raw_parts_tagged:
  assumes "\<forall>m \<in> set messages. \<forall>p \<in> set (raw_partsOrEmpty m). raw_type p \<noteq> None"
    and "raw_lastMessage (raw_memoizedMessages messages) = Some lm"
  shows "\<forall>p \<in> set (raw_partsOrEmpty lm). raw_type p \<noteq> None"
  using assms raw_lastMessage_mem [of messages lm] by blast

lemma raw_hasActiveToolInvocations_tagged:
  assumes "\<forall>m \<in> set messages. \<forall>p \<in> set (raw_partsOrEmpty m). raw_type p \<noteq> None"
  shows "\<exists>a. raw_hasActiveToolInvocations messages status = Inr a"
proof (cases "raw_lastMessage (raw_memoizedMessages messages)")
  case None
  then show ?thesis by (auto simp: raw_hasActiveToolInvocations_def)
next
  case (Some lm)
  show ?thesis
  proof (cases "raw_parts lm")
    case None
    with Some show ?thesis by (auto simp: raw_hasActiveToolInvocations_def)
  next
    case (Some ps)
    with raw_parts_tagged [OF assms \<open>raw_lastMessage (raw_memoizedMessages messages) = Some lm\<close>]
    have "\<forall>p \<in> set ps. raw_type p \<noteq> None"
      by (simp add: raw_partsOrEmpty_def)
    from some_throwing_tagged [OF this] Some
      \<open>raw_lastMessage (raw_memoizedMessages messages) = Some lm\<close>
    show ?thesis by (auto simp: raw_hasActiveToolInvocations_def)
  qed
qed

lemma raw_isMissingAssistantResponse_tagged:
  assumes "\<forall>m \<in> set messages. \<forall>p \<in> set (raw_partsOrEmpty m). raw_type p \<noteq> None"
  shows "\<exists>b. raw_isMissingAssistantResponse messages status error = Inr b"
proof (cases "raw_lastMessage (raw_memoizedMessages messages)")
  case None
  then show ?thesis by (auto simp: raw_isMissingAssistantResponse_def)
next
  case (Some lm)
  from some_throwing_tagged [OF raw_parts_tagged [OF assms Some]]
  obtain t where "some_throwing raw_isToolPart (raw_partsOrEmpty lm) = Inr t"
    by blast
  with Some show ?thesis
    by (auto simp: raw_isMissingAssistantResponse_def Let_def)
qed

subsection \<open>On tagged parts the two computations are those of the message type\<close>

lemma raw_memoizedMessages_tagged:
  "raw_memoizedMessages (map tagged ms) = map tagged (memoizedMessages ms)"
  by (induction ms) (simp_all add: raw_memoizedMessages_def memoizedMessages_def tagged_def)

lemma raw_lastMessage_tagged:
  "raw_lastMessage (map tagged ms) = map_option tagged (lastMessage ms)"
  by (simp add: raw_lastMessage_def lastMessage_def)

lemma some_throwing_tagged_part:
  "some_throwing raw_isToolPart (map tagged_part ps) =
     Inr (list_ex (\<lambda>part. startsWith (part_type part) ''tool-'') ps)"
  by (induction ps) (simp_all add: raw_isToolPart_def tagged_part_def)

lemma raw_hasActiveToolInvocations_refines:
  "raw_hasActiveToolInvocations (map tagged ms) status = Inr (hasActiveToolInvocations ms status)"
proof (cases "lastMessage (memoizedMessages ms)")
  case None
  then show ?thesis
    by (simp add: raw_hasActiveToolInvocations_def hasActiveToolInvocations_def
        raw_memoizedMessages_tagged raw_lastMessage_tagged)
next
  case (Some lm)
  then show ?thesis
    by (cases "parts lm")
       (simp_all add: raw_hasActiveToolInvocations_def hasActiveToolInvocations_def
          raw_memoizedMessages_tagged raw_lastMessage_tagged tagged_def
          some_throwing_tagged_part)
qed

lemma raw_visibleText_tagged:
  "list_ex (\<lambda>part. raw_type part = Some ''text'' \<and>
        (case raw_text part of None \<Rightarrow> False | Some t \<Rightarrow> t \<noteq> [] \<and> trim t \<noteq> []))
     (map tagged_part ps) = hasVisibleText ps"
  by (induction ps) (simp_all add: hasVisibleText_def tagged_part_def)

lemma raw_partsOrEmpty_tagged:
  "raw_partsOrEmpty (tagged m) = map tagged_part (partsOrEmpty m)"
  by (cases "parts m") (simp_all add: raw_partsOrEmpty_def partsOrEmpty_def tagged_def)

lemma raw_isMissingAssistantResponse_refines:
  "raw_isMissingAssistantResponse (map tagged ms) status error =
     Inr (isMissingAssistantResponse ms status error)"
proof (cases "lastMessage (memoizedMessages ms)")
  case None
  then show ?thesis
    by (simp add: raw_isMissingAssistantResponse_def isMissingAssistantResponse_def
        raw_memoizedMessages_tagged raw_lastMessage_tagged)
next
  case (Some lm)
  have r: "raw_role (tagged lm) = role lm"
    by (simp add: tagged_def)
  from Some show ?thesis
    by (simp add: raw_isMissingAssistantResponse_def isMissingAssistantResponse_def
        raw_memoizedMessages_tagged raw_lastMessage_tagged r raw_partsOrEmpty_tagged
        raw_visibleText_tagged some_throwing_tagged_part hasToolInvocations_def Let_def)
qed

lemma raw_role_tagged [simp]: "raw_role (tagged m) = role m"
  by (simp add: tagged_def)

lemma raw_partsCount_tagged [simp]: "raw_partsCount (tagged m) = partsCount m"
  by (cases "parts m") (simp_all add: raw_partsCount_def partsCount_def tagged_def)

lemma raw_shouldShowLoading_refines:
  "raw_shouldShowLoading (map tagged ms) status = shouldShowLoading ms status"
  by (cases "lastMessage (memoizedMessages ms)")
     (simp_all add: raw_shouldShowLoading_def shouldShowLoading_def
        raw_memoizedMessages_tagged raw_lastMessage_tagged)

lemma raw_lastAssistantIndex_loop_refines:
  "raw_lastAssistantIndex_loop (map tagged ms) i = lastAssistantIndex_loop ms i"
proof (induction ms i rule: lastAssistantIndex_loop.induct)
  case (1 ms i)
  show ?case
  proof (cases "i \<ge> 0 \<and> \<not> (nat i < length ms \<and> role (ms ! nat i) = Assistant)")
    case True
    with "1.IH" have "raw_lastAssistantIndex_loop (map tagged ms) (i - 1) =
        lastAssistantIndex_loop ms (i - 1)"
      by simp
    with True show ?thesis
      by (auto simp: raw_lastAssistantIndex_loop.simps [of "map tagged ms" i]
          lastAssistantIndex_loop.simps [of ms i])
  next
    case False
    then show ?thesis
      by (auto simp: raw_lastAssistantIndex_loop.simps [of "map tagged ms" i]
          lastAssistantIndex_loop.simps [of ms i])
  qed
qed

lemma raw_lastAssistantIndex_refines:
  "raw_lastAssistantIndex (map tagged ms) = lastAssistantIndex ms"
  by (simp add: raw_lastAssistantIndex_def lastAssistantIndex_def raw_memoizedMessages_tagged
      raw_lastAssistantIndex_loop_refines)

lemma raw_activeAssistantIndex_refines:
  "raw_activeAssistantIndex (map tagged ms) status = activeAssistantIndex ms status"
  by (cases "lastMessage (memoizedMessages ms)")
     (simp_all add: raw_activeAssistantIndex_def activeAssistantIndex_def
        raw_memoizedMessages_tagged raw_lastMessage_tagged)

lemma raw_isActiveAssistantSkeleton_refines:
  "raw_isActiveAssistantSkeleton (map tagged ms) status = isActiveAssistantSkeleton ms status"
  by (cases "lastMessage (memoizedMessages ms)")
     (simp_all add: raw_isActiveAssistantSkeleton_def isActiveAssistantSkeleton_def
        raw_memoizedMessages_tagged raw_lastMessage_tagged)

lemma raw_shouldReserveLoaderMinHeight_refines:
  "raw_shouldReserveLoaderMinHeight (map tagged ms) status =
     shouldReserveLoaderMinHeight ms status"
  by (cases "lastMessage (memoizedMessages ms)")
     (simp_all add: raw_shouldReserveLoaderMinHeight_def shouldReserveLoaderMinHeight_def
        raw_isActiveAssistantSkeleton_refines raw_memoizedMessages_tagged raw_lastMessage_tagged)

lemma raw_shouldReduceHeight_refines:
  "raw_shouldReduceHeight (map tagged ms) status (tagged m) index =
     shouldReduceHeight ms status m index"
  by (simp add: raw_shouldReduceHeight_def shouldReduceHeight_def
      raw_activeAssistantIndex_refines raw_isActiveAssistantSkeleton_refines
      raw_lastAssistantIndex_refines)

lemma enumerate_map_snd:
  "enumerate n (map f xs) = map (\<lambda>(i, x). (i, f x)) (enumerate n xs)"
  by (induction xs arbitrary: n) simp_all

lemma derivedStatus_refines:
  "derivedStatus (map tagged ms) status error =
     Inr \<lparr>ds_hasActiveToolInvocations = hasActiveToolInvocations ms status,
          ds_isMissingAssistantResponse = isMissingAssistantResponse ms status error,
          ds_shouldShowLoading = shouldShowLoading ms status,
          ds_lastAssistantIndex = lastAssistantIndex ms,
          ds_activeAssistantIndex = activeAssistantIndex ms status,
          ds_isActiveAssistantSkeleton = isActiveAssistantSkeleton ms status,
          ds_shouldReserveLoaderMinHeight = shouldReserveLoaderMinHeight ms status,
          ds_shouldReduceHeight =
            map (\<lambda>(index, message). shouldReduceHeight ms status message index)
              (enumerate 0 (memoizedMessages ms))\<rparr>"
  by (simp add: derivedStatus_def raw_hasActiveToolInvocations_refines
      raw_isMissingAssistantResponse_refines raw_shouldShowLoading_refines
      raw_lastAssistantIndex_refines raw_activeAssistantIndex_refines
      raw_isActiveAssistantSkeleton_refines raw_shouldReserveLoaderMinHeight_refines
      raw_memoizedMessages_tagged enumerate_map_snd split_beta
      raw_shouldReduceHeight_refines)

lemma derivedStatus_tagged:
  assumes "\<forall>m \<in> set messages. \<forall>p \<in> set (raw_partsOrEmpty m). raw_type p \<noteq> None"
  shows "\<exists>d. derivedStatus messages status error = Inr d"
proof -
  from raw_hasActiveToolInvocations_tagged [OF assms, of status]
  obtain a where "raw_hasActiveToolInvocations messages status = Inr a" by blast
  moreover from raw_isMissingAssistantResponse_tagged [OF assms, of status error]
  obtain b where "raw_isMissingAssistantResponse messages status error = Inr b" by blast
  ultimately show ?thesis
    by (simp add: derivedStatus_def)
qed

lemma derivedStatus_Nil:
  "derivedStatus [] status error =
     Inr \<lparr>ds_hasActiveToolInvocations = False,
          ds_isMissingAssistantResponse = False,
          ds_shouldShowLoading = (status = Submitted),
          ds_lastAssistantIndex = - 1,
          ds_activeAssistantIndex = - 1,
          ds_isActiveAssistantSkeleton = False,
          ds_shouldReserveLoaderMinHeight = (status = Submitted),
          ds_shouldReduceHeight = []\<rparr>"
  using derivedStatus_refines [of "[]" status error]
  by (simp add: lastAssistantIndex_Nil shouldShowLoading_def
      activeAssistantIndex_def isActiveAssistantSkeleton_def shouldReserveLoaderMinHeight_def
      hasActiveToolInvocations_def isMissingAssistantResponse_def)

text \<open>
  Claim C6, as stated, fails twice. For the empty sequence and status submitted, the
  loading flag is true. And on an assistant turn holding a part without a tag, the
  derived status fails at status ready (in \<open>isMissingAssistantResponse\<close>) and at status
  streaming (in \<open>hasActiveToolInvocations\<close>).
\<close>

theorem derived_status_claim_counterexample:
  "shouldShowLoading [] Submitted
   \<and> derivedStatus [] Submitted (None :: unit option) =
       Inr \<lparr>ds_hasActiveToolInvocations = False,
            ds_isMissingAssistantResponse = False,
            ds_shouldShowLoading = True,
            ds_lastAssistantIndex = - 1,
            ds_activeAssistantIndex = - 1,
            ds_isActiveAssistantSkeleton = False,
            ds_shouldReserveLoaderMinHeight = True,
            ds_shouldReduceHeight = []\<rparr>
   \<and> derivedStatus
        [\<lparr>raw_id = ''a1'', raw_role = Assistant,
          raw_parts = Some [\<lparr>raw_type = None, raw_text = None\<rparr>]\<rparr>]
        Ready (None :: unit option) = Inl TypeError
   \<and> derivedStatus
        [\<lparr>raw_id = ''a1'', raw_role = Assistant,
          raw_parts = Some [\<lparr>raw_type = None, raw_text = None\<rparr>]\<rparr>]
        Streaming (None :: unit option) = Inl TypeError"
proof (intro conjI)
  show "shouldShowLoading [] Submitted"
    by (simp add: shouldShowLoading_def)
  show "derivedStatus [] Submitted (None :: unit option) =
       Inr \<lparr>ds_hasActiveToolInvocations = False,
            ds_isMissingAssistantResponse = False,
            ds_shouldShowLoading = True,
            ds_lastAssistantIndex = - 1,
            ds_activeAssistantIndex = - 1,
            ds_isActiveAssistantSkeleton = False,
            ds_shouldReserveLoaderMinHeight = True,
            ds_shouldReduceHeight = []\<rparr>"
    by (simp add: derivedStatus_Nil)
qed (simp_all add: derivedStatus_def raw_isMissingAssistantResponse_def
      raw_hasActiveToolInvocations_def raw_memoizedMessages_def raw_lastMessage_def
      raw_partsOrEmpty_def raw_isToolPart_def)

text \<open>
  Claim C6, amended. On every input of the message type, that is, whenever every part
  of every turn carries a type tag, the derived status of a render is computed without
  failure, and its values are those of the computations on the message type. For the
  empty sequence, at every status and error value, it is computed without failure:
  \<open>lastAssistantIndex\<close> and \<open>activeAssistantIndex\<close> are \<open>-1\<close>; \<open>shouldShowLoading\<close> and
  \<open>shouldReserveLoaderMinHeight\<close> hold exactly at status submitted; the loading block is
  not rendered (the component returns \<open>null\<close>); the skeleton, active-tool and
  missing-response flags are false.
\<close>

theorem derived_status_total_and_empty:
  assumes "\<forall>m \<in> set messages. \<forall>p \<in> set (raw_partsOrEmpty m). raw_type p \<noteq> None"
  shows "(\<exists>d. derivedStatus messages status error = Inr d)
   \<and> derivedStatus (map tagged ms) status error =
       Inr \<lparr>ds_hasActiveToolInvocations = hasActiveToolInvocations ms status,
            ds_isMissingAssistantResponse = isMissingAssistantResponse ms status error,
            ds_shouldShowLoading = shouldShowLoading ms status,
            ds_lastAssistantIndex = lastAssistantIndex ms,
            ds_activeAssistantIndex = activeAssistantIndex ms status,
            ds_isActiveAssistantSkeleton = isActiveAssistantSkeleton ms status,
            ds_shouldReserveLoaderMinHeight = shouldReserveLoaderMinHeight ms status,
            ds_shouldReduceHeight =
              map (\<lambda>(index, message). shouldReduceHeight ms status message index)
                (enumerate 0 (memoizedMessages ms))\<rparr>
   \<and> derivedStatus [] status error =
       Inr \<lparr>ds_hasActiveToolInvocations = False,
            ds_isMissingAssistantResponse = False,
            ds_shouldShowLoading = (status = Submitted),
            ds_lastAssistantIndex = - 1,
            ds_activeAssistantIndex = - 1,
            ds_isActiveAssistantSkeleton = False,
            ds_shouldReserveLoaderMinHeight = (status = Submitted),
            ds_shouldReduceHeight = []\<rparr>
   \<and> lastAssistantIndex [] = - 1
   \<and> (shouldShowLoading [] status \<longleftrightarrow> status = Submitted)
   \<and> \<not> loadingIndicatorRendered [] status
   \<and> activeAssistantIndex [] status = - 1
   \<and> \<not> isActiveAssistantSkeleton [] status
   \<and> (shouldReserveLoaderMinHeight [] status \<longleftrightarrow> status = Submitted)
   \<and> \<not> hasActiveToolInvocations [] status
   \<and> \<not> isMissingAssistantResponse [] status error"
proof -
  have typed: "lastAssistantIndex [] = - 1
     \<and> (shouldShowLoading [] status \<longleftrightarrow> status = Submitted)
     \<and> \<not> loadingIndicatorRendered [] status
     \<and> activeAssistantIndex [] status = - 1
     \<and> \<not> isActiveAssistantSkeleton [] status
     \<and> (shouldReserveLoaderMinHeight [] status \<longleftrightarrow> status = Submitted)
     \<and> \<not> hasActiveToolInvocations [] status
     \<and> \<not> isMissingAssistantResponse [] status error"
    by (simp add: lastAssistantIndex_Nil shouldShowLoading_def loadingIndicatorRendered_def
        activeAssistantIndex_def isActiveAssistantSkeleton_def shouldReserveLoaderMinHeight_def
        hasActiveToolInvocations_def isMissingAssistantResponse_def)
  from derivedStatus_tagged [OF assms, of status error]
    derivedStatus_refines [of ms status error]
    derivedStatus_Nil [of status error]
    typed
  show ?thesis by (simp only: simp_thms)
qed

theorem derived_status_total_and_empty_witness:
  "(\<exists>d. derivedStatus
          [tagged (ex_user ''u1''), tagged (ex_assistant ''a1'' [ex_reasoning, ex_tool])]
          Streaming (None :: unit option) = Inr d)
   \<and> raw_hasActiveToolInvocations
        [tagged (ex_user ''u1''), tagged (ex_assistant ''a1'' [ex_reasoning, ex_tool])]
        Streaming = Inr True
   \<and> raw_isMissingAssistantResponse
        [tagged (ex_user ''u1''), tagged (ex_assistant ''a1'' [ex_reasoning, ex_tool])]
        Ready (None :: unit option) = Inr False"
proof -
  let ?ms = "[tagged (ex_user ''u1''), tagged (ex_assistant ''a1'' [ex_reasoning, ex_tool])]"
  have h: "\<forall>m \<in> set ?ms. \<forall>p \<in> set (raw_partsOrEmpty m). raw_type p \<noteq> None"
    by (simp add: tagged_def tagged_part_def raw_partsOrEmpty_def)
  have v: "raw_hasActiveToolInvocations ?ms Streaming = Inr True"
    "raw_isMissingAssistantResponse ?ms Ready (None :: unit option) = Inr False"
    by (simp_all add: raw_hasActiveToolInvocations_def raw_isMissingAssistantResponse_def
        raw_memoizedMessages_def raw_lastMessage_def raw_partsOrEmpty_def raw_isToolPart_def
        tagged_def tagged_part_def startsWith_def)
  from derived_status_total_and_empty [OF h, of Streaming "None :: unit option" "[]"]
  have a: "\<exists>d. derivedStatus ?ms Streaming (None :: unit option) = Inr d"
    by (rule conjunct1)
  from a v show ?thesis by (simp only: simp_thms)
qed

section \<open>Derived status: height reduction\<close>

text \<open>
  Claim C2, as stated, fails: with \<open>[user, assistant with one part]\<close> and status
  streaming, the assistant turn at index 1 is the active one and is in its skeleton
  phase, and its \<open>shouldReduceHeight\<close> flag is true, not false.
\<close>

theorem shouldReduceHeight_skeleton_counterexample:
  "shouldReduceHeight [ex_user ''u1'', ex_assistant ''a1'' [ex_text]] Streaming
      (ex_assistant ''a1'' [ex_text]) 1
   \<and> int 1 = activeAssistantIndex [ex_user ''u1'', ex_assistant ''a1'' [ex_text]] Streaming
   \<and> isActiveAssistantSkeleton [ex_user ''u1'', ex_assistant ''a1'' [ex_text]] Streaming
   \<and> partsCount (ex_assistant ''a1'' [ex_text]) \<le> 1"
  by (simp add: shouldReduceHeight_def activeAssistantIndex_def isActiveAssistantSkeleton_def
      memoizedMessages_def lastMessage_def partsCount_def)

text \<open>
  Claim C2, amended. For a displayed assistant turn at index \<open>index\<close>: at status
  submitted the flag is true; at status streaming it is true for every turn but the last
  displayed one, and for the last displayed one (the active assistant turn) it equals the
  skeleton condition, true with at most one part and false with two or more; at any
  other status it is true exactly when a later displayed turn is an assistant turn, that
  is, when \<open>index\<close> is not the last assistant index.
\<close>

theorem shouldReduceHeight_rule:
  assumes "index < length (memoizedMessages messages)"
    and "message = memoizedMessages messages ! index"
    and "role message = Assistant"
  shows "shouldReduceHeight messages status message index =
     (case status of
        Submitted \<Rightarrow> True
      | Streaming \<Rightarrow>
          (if index + 1 = length (memoizedMessages messages) then partsCount message \<le> 1
           else True)
      | _ \<Rightarrow> (\<exists>j. index < j \<and> j < length (memoizedMessages messages) \<and>
                 role (memoizedMessages messages ! j) = Assistant))
     \<and> (status \<noteq> Submitted \<and> status \<noteq> Streaming \<longrightarrow>
          shouldReduceHeight messages status message index =
            (int index \<noteq> lastAssistantIndex messages))"
proof (cases status)
  case Submitted
  with assms show ?thesis by (simp add: shouldReduceHeight_def)
next
  case Streaming
  let ?mm = "memoizedMessages messages"
  from assms(1) have ne: "?mm \<noteq> []" by auto
  then have lm: "lastMessage ?mm = Some (?mm ! (length ?mm - 1))"
    by (simp add: lastMessage_def)
  show ?thesis
  proof (cases "index + 1 = length ?mm")
    case True
    then have "length ?mm - 1 = index" by simp
    with lm assms have "lastMessage ?mm = Some message" by simp
    moreover from True have "int index = int (length ?mm) - 1" by simp
    ultimately show ?thesis using Streaming assms(3) True ne
      by (simp add: shouldReduceHeight_def activeAssistantIndex_def isActiveAssistantSkeleton_def)
  next
    case False
    with assms(1) have "int index \<noteq> int (length ?mm) - 1" by (simp add: algebra_simps)
    with Streaming assms False lm show ?thesis
      by (simp add: shouldReduceHeight_def activeAssistantIndex_def)
  qed
next
  case Ready
  with assms not_lastAssistantIndex_iff [of index messages] show ?thesis
    by (simp add: shouldReduceHeight_def)
next
  case Error
  with assms not_lastAssistantIndex_iff [of index messages] show ?thesis
    by (simp add: shouldReduceHeight_def)
qed

theorem shouldReduceHeight_rule_witness:
  "\<not> shouldReduceHeight [ex_user ''u1'', ex_assistant ''a1'' [ex_reasoning, ex_text]] Streaming
        (ex_assistant ''a1'' [ex_reasoning, ex_text]) 1
   \<and> shouldReduceHeight
        [ex_user ''u1'', ex_assistant ''a1'' [ex_text], ex_user ''u2'', ex_assistant ''a2'' [ex_text]]
        Ready (ex_assistant ''a1'' [ex_text]) 1"
proof -
  let ?a = "ex_assistant ''a1'' [ex_reasoning, ex_text]"
  let ?ms = "[ex_user ''u1'', ?a]"
  let ?b = "ex_assistant ''a1'' [ex_text]"
  let ?ns = "[ex_user ''u1'', ?b, ex_user ''u2'', ex_assistant ''a2'' [ex_text]]"
  have m: "memoizedMessages ?ms = ?ms" and n: "memoizedMessages ?ns = ?ns"
    by (simp_all add: memoizedMessages_def)
  have h1: "1 < length (memoizedMessages ?ms)" and h2: "?a = memoizedMessages ?ms ! 1"
    and h3: "role ?a = Assistant"
    by (simp_all add: m)
  have k1: "1 < length (memoizedMessages ?ns)" and k2: "?b = memoizedMessages ?ns ! 1"
    and k3: "role ?b = Assistant"
    by (simp_all add: n)
  have later: "\<exists>j>1. j < length ?ns \<and> role (?ns ! j) = Assistant"
    by (rule exI [of _ 3]) simp
  from shouldReduceHeight_rule [OF h1 h2 h3, of Streaming]
  have "\<not> shouldReduceHeight ?ms Streaming ?a 1"
    by (simp add: m partsCount_def)
  moreover from shouldReduceHeight_rule [OF k1 k2 k3, of Ready] later
  have "shouldReduceHeight ?ns Ready ?b 1"
    by (simp add: n)
  ultimately show ?thesis by simp
qed

section \<open>Retry\<close>

lemma findLast_None: "\<forall>m \<in> set xs. \<not> P m \<Longrightarrow> findLast P xs = None"
  by (simp add: findLast_def find_None_iff)

lemma findLast_last_match:
  "P a \<Longrightarrow> \<forall>m \<in> set post. \<not> P m \<Longrightarrow> findLast P (pre @ [a] @ post) = Some a"
proof -
  assume a: "P a" and post: "\<forall>m \<in> set post. \<not> P m"
  have "find P (rev post @ ys) = find P ys" for ys
    using post by (induction post arbitrary: ys rule: rev_induct) auto
  from this [of "a # rev pre"] a show ?thesis
    by (simp add: findLast_def)
qed

lemma newMessages_loop_prefix:
  "lastId \<notin> msg_id ` set pre \<Longrightarrow> msg_id a = lastId \<Longrightarrow>
     newMessages_loop (pre @ [a] @ post) lastId = pre @ [a]"
  by (induction pre) auto

text \<open>
  Claim C9. When the sequence holds no user turn, a retry changes nothing: the sequence
  and the suggested questions stay as they are and no call is made, neither the
  deletion nor \<open>regenerate\<close>.
\<close>

theorem retry_without_user_turn_noop:
  "\<forall>m \<in> set (local_messages s). role m \<noteq> User \<Longrightarrow>
     handleRetry user deleteTrailingMessages regenerate s = s"
  by (simp add: handleRetry_def handleRetry_try_def findLast_None)

theorem retry_without_user_turn_noop_witness:
  "handleRetry (Some ()) (\<lambda>_. Resolves) Resolves
      \<lparr>local_messages = [ex_assistant ''a1'' [ex_text]], suggestedQuestions = [''q''], calls = []\<rparr>
   = \<lparr>local_messages = [ex_assistant ''a1'' [ex_text]], suggestedQuestions = [''q''], calls = []\<rparr>"
proof -
  let ?s = "\<lparr>local_messages = [ex_assistant ''a1'' [ex_text]], suggestedQuestions = [''q''],
             calls = []\<rparr>"
  have h: "\<forall>m \<in> set (local_messages ?s). role m \<noteq> User" by simp
  from retry_without_user_turn_noop [OF h] show ?thesis .
qed

text \<open>
  Claim C1, as stated, fails. When the awaited deletion rejects, the \<open>catch\<close> block is
  entered before anything else happens: the sequence is not truncated, the suggested
  questions are kept, and \<open>regenerate\<close> is not called. And the truncation loop stops at
  the first message carrying the last user turn's id, so with a repeated id the result is
  shorter than the prefix ending at the last user turn.
\<close>

theorem retry_deletion_failure_counterexample:
  "local_messages (handleRetry (Some ()) (\<lambda>_. Rejects) Resolves
      \<lparr>local_messages = [ex_user ''u1'', ex_assistant ''a1'' []], suggestedQuestions = [''q''],
       calls = []\<rparr>) = [ex_user ''u1'', ex_assistant ''a1'' []]
   \<and> suggestedQuestions (handleRetry (Some ()) (\<lambda>_. Rejects) Resolves
      \<lparr>local_messages = [ex_user ''u1'', ex_assistant ''a1'' []], suggestedQuestions = [''q''],
       calls = []\<rparr>) = [''q'']
   \<and> calls (handleRetry (Some ()) (\<lambda>_. Rejects) Resolves
      \<lparr>local_messages = [ex_user ''u1'', ex_assistant ''a1'' []], suggestedQuestions = [''q''],
       calls = []\<rparr>) = [DeleteTrailingMessages ''u1'', ConsoleError]
   \<and> local_messages (handleRetry (None :: unit option) (\<lambda>_. Resolves) Resolves
      \<lparr>local_messages = [ex_user ''u1'', ex_assistant ''a1'' [ex_text], ex_user ''u1'',
                          ex_assistant ''a2'' []],
       suggestedQuestions = [], calls = []\<rparr>) = [ex_user ''u1'']"
  by (simp add: handleRetry_def handleRetry_try_def findLast_def Let_def)

text \<open>
  Claim C1, amended. Let the sequence be \<open>pre @ [a] @ post\<close> with \<open>a\<close> a user turn,
  \<open>post\<close> assistant turns only, and no turn of \<open>pre\<close> carrying the id of \<open>a\<close>. If the
  deletion is called and rejects, a retry only records the deletion call and logs the
  error. Otherwise (the deletion is not called, or resolves) the sequence becomes
  \<open>pre @ [a]\<close>, the suggested questions become empty, and \<open>regenerate\<close> is called
  exactly once, whatever \<open>regenerate\<close> itself does.
\<close>

theorem retry_truncates_and_regenerates:
  assumes "local_messages s = pre @ [a] @ post"
    and "role a = User"
    and "\<forall>m \<in> set post. role m = Assistant"
    and "msg_id a \<notin> msg_id ` set pre"
  shows "(if user \<noteq> None \<and> msg_id a \<noteq> [] \<and> deleteTrailingMessages (msg_id a) = Rejects
     then handleRetry user deleteTrailingMessages regenerate s =
            s\<lparr>calls := calls s @ [DeleteTrailingMessages (msg_id a), ConsoleError]\<rparr>
     else local_messages (handleRetry user deleteTrailingMessages regenerate s) = pre @ [a]
        \<and> suggestedQuestions (handleRetry user deleteTrailingMessages regenerate s) = []
        \<and> calls (handleRetry user deleteTrailingMessages regenerate s) =
            calls s
            @ (if user \<noteq> None \<and> msg_id a \<noteq> [] then [DeleteTrailingMessages (msg_id a)] else [])
            @ [SetMessages (pre @ [a]), SetSuggestedQuestions [], Regenerate]
            @ (if regenerate = Rejects then [ConsoleError] else [])
        \<and> count_list (calls (handleRetry user deleteTrailingMessages regenerate s)) Regenerate =
            count_list (calls s) Regenerate + 1)"
proof -
  from assms(3) have post: "\<forall>m \<in> set post. \<not> role m = User" by auto
  have fl: "findLast (\<lambda>m. role m = User) (local_messages s) = Some a"
    unfolding assms(1) using assms(2) post by (rule findLast_last_match)
  have nm: "newMessages_loop (local_messages s) (msg_id a) = pre @ [a]"
    unfolding assms(1) using assms(4) by (rule newMessages_loop_prefix) simp
  show ?thesis
    using nm by (auto simp: handleRetry_def handleRetry_try_def fl Let_def)
qed

theorem retry_truncates_and_regenerates_witness:
  "local_messages (handleRetry (Some ()) (\<lambda>_. Resolves) Rejects
      \<lparr>local_messages = [ex_user ''u1'', ex_assistant ''a1'' []], suggestedQuestions = [''q''],
       calls = []\<rparr>) = [ex_user ''u1'']
   \<and> suggestedQuestions (handleRetry (Some ()) (\<lambda>_. Resolves) Rejects
      \<lparr>local_messages = [ex_user ''u1'', ex_assistant ''a1'' []], suggestedQuestions = [''q''],
       calls = []\<rparr>) = []
   \<and> calls (handleRetry (Some ()) (\<lambda>_. Resolves) Rejects
      \<lparr>local_messages = [ex_user ''u1'', ex_assistant ''a1'' []], suggestedQuestions = [''q''],
       calls = []\<rparr>) =
      [DeleteTrailingMessages ''u1'', SetMessages [ex_user ''u1''], SetSuggestedQuestions [],
       Regenerate, ConsoleError]
   \<and> handleRetry (Some ()) (\<lambda>_. Rejects) Resolves
      \<lparr>local_messages = [ex_user ''u1'', ex_assistant ''a1'' []], suggestedQuestions = [''q''],
       calls = []\<rparr> =
      \<lparr>local_messages = [ex_user ''u1'', ex_assistant ''a1'' []], suggestedQuestions = [''q''],
       calls = [DeleteTrailingMessages ''u1'', ConsoleError]\<rparr>"
proof -
  let ?s = "\<lparr>local_messages = [ex_user ''u1'', ex_assistant ''a1'' []],
             suggestedQuestions = [''q''], calls = []\<rparr>"
  have h1: "local_messages ?s = [] @ [ex_user ''u1''] @ [ex_assistant ''a1'' []]" by simp
  have h2: "role (ex_user ''u1'') = User" by simp
  have h3: "\<forall>m \<in> set [ex_assistant ''a1'' []]. role m = Assistant" by simp
  have h4: "msg_id (ex_user ''u1'') \<notin> msg_id ` set []" by simp
  from retry_truncates_and_regenerates [OF h1 h2 h3 h4, of "Some ()" "\<lambda>_. Resolves" Rejects]
       retry_truncates_and_regenerates [OF h1 h2 h3 h4, of "Some ()" "\<lambda>_. Rejects" Resolves]
  show ?thesis by simp
qed

section \<open>Active reasoning\<close>

lemma Bex_enumerate:
  "(\<exists>y \<in> set (enumerate 0 ps). S y) \<longleftrightarrow> (\<exists>i < length ps. S (i, ps ! i))"
proof
  assume "\<exists>y \<in> set (enumerate 0 ps). S y"
  then obtain y where "y \<in> set (enumerate 0 ps)" "S y" by blast
  then have "fst y < length ps" "S (fst y, ps ! fst y)"
    by (simp_all add: in_set_enumerate_eq)
  then show "\<exists>i < length ps. S (i, ps ! i)" by blast
next
  assume "\<exists>i < length ps. S (i, ps ! i)"
  then obtain i where "i < length ps" "S (i, ps ! i)" by blast
  then have "(i, ps ! i) \<in> set (enumerate 0 ps)"
    by (simp add: in_set_enumerate_eq)
  with \<open>S (i, ps ! i)\<close> show "\<exists>y \<in> set (enumerate 0 ps). S y" by blast
qed

lemma list_ex_enumerate:
  "list_ex (\<lambda>(i, p). Q i p) (enumerate 0 ps) \<longleftrightarrow> (\<exists>i < length ps. Q i (ps ! i))"
  by (simp add: list_ex_iff Bex_enumerate)

lemma isReasoningActive_iff:
  "isReasoningActive message partIndex \<longleftrightarrow>
     (partIndex < length (partsOrEmpty message) \<and>
      part_type (partsOrEmpty message ! partIndex) = ''reasoning'' \<and>
      \<not> (\<exists>i. partIndex < i \<and> i < length (partsOrEmpty message) \<and>
             (part_type (partsOrEmpty message ! i) = ''text'' \<or>
              part_type (partsOrEmpty message ! i) = ''tool-invocation'')))"
  unfolding isReasoningActive_def list_ex_enumerate by blast

lemma filter_filter_nonempty:
  "filter P (filter Q xs) \<noteq> [] \<longleftrightarrow> (\<exists>x \<in> set xs. Q x \<and> P x)"
  by (auto simp: filter_empty_conv)

lemma activeReasoning_message:
  "filter (\<lambda>info.
            let message = messages ! info_messageIndex info
            in \<not> list_ex (\<lambda>(i, p). i > info_partIndex info \<and>
                    (part_type p = ''text'' \<or> part_type p = ''tool-invocation''))
                 (enumerate 0 (partsOrEmpty message)))
          (filter (\<lambda>info. part_type (info_part info) = ''reasoning'')
             (map (\<lambda>(partIndex, part).
                  \<lparr>info_part = part, info_messageIndex = mi, info_partIndex = partIndex\<rparr>)
                (enumerate 0 (partsOrEmpty (messages ! mi))))) \<noteq> [] \<longleftrightarrow>
         (\<exists>pi. isReasoningActive (messages ! mi) pi)"
  unfolding filter_filter_nonempty set_map bex_simps Bex_enumerate isReasoningActive_def
  by (simp add: Let_def)

lemma activeReasoning_Nil_iff:
  "activeReasoning messages = [] \<longleftrightarrow>
     \<not> (\<exists>mi pi. mi < length messages \<and> isReasoningActive (messages ! mi) pi)"
proof -
  define F where "F = (\<lambda>(messageIndex, message).
        filter (\<lambda>info.
            let message = messages ! info_messageIndex info
            in \<not> list_ex (\<lambda>(i, p). i > info_partIndex info \<and>
                    (part_type p = ''text'' \<or> part_type p = ''tool-invocation''))
                 (enumerate 0 (partsOrEmpty message)))
          (filter (\<lambda>info. part_type (info_part info) = ''reasoning'')
             (map (\<lambda>(partIndex, part).
                  \<lparr>info_part = part, info_messageIndex = messageIndex, info_partIndex = partIndex\<rparr>)
                (enumerate 0 (partsOrEmpty message)))))"
  have F: "F (mi, messages ! mi) \<noteq> [] \<longleftrightarrow> (\<exists>pi. isReasoningActive (messages ! mi) pi)" for mi
    unfolding F_def prod.case by (rule activeReasoning_message)
  have "activeReasoning messages = concat (map F (enumerate 0 messages))"
    unfolding activeReasoning_def F_def ..
  then have "activeReasoning messages \<noteq> [] \<longleftrightarrow> (\<exists>y \<in> set (enumerate 0 messages). F y \<noteq> [])"
    by simp
  also have "\<dots> \<longleftrightarrow> (\<exists>mi < length messages. F (mi, messages ! mi) \<noteq> [])"
    by (rule Bex_enumerate)
  also have "\<dots> \<longleftrightarrow> (\<exists>mi < length messages. \<exists>pi. isReasoningActive (messages ! mi) pi)"
    unfolding F ..
  finally show ?thesis by blast
qed

text \<open>
  Claim C3 on the code: a reasoning part followed by a tool part \<open>tool-web_search\<close> is
  still listed as active, although the part list has a tool invocation in the sense of
  \<open>hasToolInvocations\<close>. The two examples of the claim hold: \<open>[reasoning, text]\<close> is not
  active at index 0, \<open>[reasoning]\<close> is.
\<close>

theorem reasoning_active_despite_tool_part:
  "activeReasoning [ex_assistant ''a1'' [ex_reasoning, ex_tool]] =
      [\<lparr>info_part = ex_reasoning, info_messageIndex = 0, info_partIndex = 0\<rparr>]
   \<and> isReasoningActive (ex_assistant ''a1'' [ex_reasoning, ex_tool]) 0
   \<and> hasToolInvocations [ex_reasoning, ex_tool]
   \<and> \<not> isReasoningActive (ex_assistant ''a1'' [ex_reasoning, ex_text]) 0
   \<and> isReasoningActive (ex_assistant ''a1'' [ex_reasoning]) 0"
  by (simp add: activeReasoning_def isReasoningActive_def hasToolInvocations_def startsWith_def
      partsOrEmpty_def)

section \<open>Scroll coordination\<close>

lemma debouncedScroll_fields:
  "timers (debouncedScroll status v) =
     filter (\<lambda>t. Some (fst t) \<noteq> scrollTimeoutRef v) (timers v)
       @ [(nextTimerId v, if status = Streaming then 100 else 0, MainScrollCallback)]"
  "nextTimerId (debouncedScroll status v) = nextTimerId v + 1"
  "scrollTimeoutRef (debouncedScroll status v) = Some (nextTimerId v)"
  "reasoningScrollTimeoutRef (debouncedScroll status v) = reasoningScrollTimeoutRef v"
  "props_messages (debouncedScroll status v) = props_messages v"
  "props_status (debouncedScroll status v) = props_status v"
  "heap (debouncedScroll status v) = heap v"
  "messagesEndRef (debouncedScroll status v) = messagesEndRef v"
  "reasoningScrollRef (debouncedScroll status v) = reasoningScrollRef v"
  "mainScrolls (debouncedScroll status v) = mainScrolls v"
  "reasoningScrolls (debouncedScroll status v) = reasoningScrolls v"
  by (cases "scrollTimeoutRef v"; simp add: debouncedScroll_def setTimeout_def clearTimeout_def)+

lemma reasoningScrollEffect_fields:
  "timers (reasoningScrollEffect messages status v) =
     filter (\<lambda>t. Some (fst t) \<noteq> reasoningScrollTimeoutRef v) (timers v)
       @ [(nextTimerId v, if status = Streaming then 150 else 0, ReasoningScrollCallback messages)]"
  "nextTimerId (reasoningScrollEffect messages status v) = nextTimerId v + 1"
  "scrollTimeoutRef (reasoningScrollEffect messages status v) = scrollTimeoutRef v"
  "reasoningScrollTimeoutRef (reasoningScrollEffect messages status v) = Some (nextTimerId v)"
  "props_messages (reasoningScrollEffect messages status v) = props_messages v"
  "props_status (reasoningScrollEffect messages status v) = props_status v"
  "heap (reasoningScrollEffect messages status v) = heap v"
  "messagesEndRef (reasoningScrollEffect messages status v) = messagesEndRef v"
  "reasoningScrollRef (reasoningScrollEffect messages status v) = reasoningScrollRef v"
  "mainScrolls (reasoningScrollEffect messages status v) = mainScrolls v"
  "reasoningScrolls (reasoningScrollEffect messages status v) = reasoningScrolls v"
  by (cases "reasoningScrollTimeoutRef v";
      simp add: reasoningScrollEffect_def setTimeout_def clearTimeout_def)+

lemma timers_tracked_iff:
  "timers_tracked v \<longleftrightarrow>
     distinct (map fst (timers v)) \<and>
     (\<forall>tid d cb. (tid, d, cb) \<in> set (timers v) \<longrightarrow> tid < nextTimerId v) \<and>
     (\<forall>tid d. (tid, d, MainScrollCallback) \<in> set (timers v) \<longrightarrow> scrollTimeoutRef v = Some tid) \<and>
     (\<forall>tid d r. (tid, d, ReasoningScrollCallback r) \<in> set (timers v) \<longrightarrow>
         reasoningScrollTimeoutRef v = Some tid)"
  unfolding timers_tracked_def list_all_iff
  by (auto split: Callback.splits; blast)

lemma timers_wf_iff:
  "timers_wf v \<longleftrightarrow>
     timers_tracked v \<and>
     (\<forall>tid d r. (tid, d, ReasoningScrollCallback r) \<in> set (timers v) \<longrightarrow> r = props_messages v)"
  unfolding timers_wf_def list_all_iff
  by (auto split: Callback.splits)

lemma distinct_fst_filter: "distinct (map fst xs) \<Longrightarrow> distinct (map fst (filter P xs))"
  by (induction xs) auto

lemma debouncedScroll_tracked: "timers_tracked v \<Longrightarrow> timers_tracked (debouncedScroll status v)"
  unfolding timers_tracked_iff debouncedScroll_fields
  by (auto simp: distinct_fst_filter less_Suc_eq; fastforce)

lemma reasoningScrollEffect_tracked:
  "timers_tracked v \<Longrightarrow> timers_tracked (reasoningScrollEffect messages status v)"
  unfolding timers_tracked_iff reasoningScrollEffect_fields
  by (auto simp: distinct_fst_filter less_Suc_eq; fastforce)

lemma debouncedScroll_main_timers:
  "timers_tracked v \<Longrightarrow>
     filter isMainTimer (timers (debouncedScroll status v)) =
       [(nextTimerId v, if status = Streaming then 100 else 0, MainScrollCallback)]"
  unfolding timers_tracked_iff debouncedScroll_fields
  by (auto simp: isMainTimer_def filter_empty_conv; metis)


lemma find_fst_distinct:
  "distinct (map fst xs) \<Longrightarrow> (k, y) \<in> set xs \<Longrightarrow> find (\<lambda>t. fst t = k) xs = Some (k, y)"
  by (induction xs) (auto simp: rev_image_eqI)

lemma fireTimer_main:
  assumes "timers_tracked v" and "(tid, d, MainScrollCallback) \<in> set (timers v)"
  shows "fireTimer tid v =
     (if messagesEndRef v
      then v\<lparr>timers := filter (\<lambda>t. fst t \<noteq> tid) (timers v), mainScrolls := mainScrolls v + 1\<rparr>
      else v\<lparr>timers := filter (\<lambda>t. fst t \<noteq> tid) (timers v)\<rparr>)"
proof -
  from assms have "find (\<lambda>t. fst t = tid) (timers v) = Some (tid, d, MainScrollCallback)"
    by (simp add: timers_tracked_iff find_fst_distinct)
  then show ?thesis
    by (simp add: fireTimer_def runCallback_def clearTimeout_def)
qed

lemma autoScrollEffect_debounced:
  "messagesEndRef v \<Longrightarrow> status = Streaming \<or> status = Submitted \<Longrightarrow>
     autoScrollEffect status n v = debouncedScroll status v"
  by (auto simp: autoScrollEffect_def)

lemma burst_debounced:
  assumes "burst \<noteq> []"
    and "timers_tracked v"
    and "messagesEndRef v"
    and "\<forall>t \<in> set burst. fst t = Streaming \<or> fst t = Submitted"
  shows "timers_tracked (fold (\<lambda>(status, n). autoScrollEffect status n) burst v)
     \<and> messagesEndRef (fold (\<lambda>(status, n). autoScrollEffect status n) burst v)
     \<and> mainScrolls (fold (\<lambda>(status, n). autoScrollEffect status n) burst v) = mainScrolls v
     \<and> filter isMainTimer (timers (fold (\<lambda>(status, n). autoScrollEffect status n) burst v)) =
         [(nextTimerId v + length burst - 1,
           if fst (last burst) = Streaming then 100 else 0, MainScrollCallback)]"
  using assms
proof (induction burst arbitrary: v)
  case Nil
  then show ?case by simp
next
  case (Cons t burst)
  obtain status n where t: "t = (status, n)" by (cases t)
  from Cons.prems t have st: "status = Streaming \<or> status = Submitted" by simp
  let ?v1 = "debouncedScroll status v"
  have step: "autoScrollEffect status n v = ?v1"
    using Cons.prems(3) st by (rule autoScrollEffect_debounced)
  have tr1: "timers_tracked ?v1"
    using Cons.prems(2) by (rule debouncedScroll_tracked)
  have m1: "messagesEndRef ?v1" "mainScrolls ?v1 = mainScrolls v"
    "nextTimerId ?v1 = nextTimerId v + 1"
    using Cons.prems(3) by (simp_all add: debouncedScroll_fields)
  show ?case
  proof (cases "burst = []")
    case True
    with t step tr1 m1 debouncedScroll_main_timers [OF Cons.prems(2), of status] show ?thesis
      by simp
  next
    case False
    from Cons.prems(4) have "\<forall>t \<in> set burst. fst t = Streaming \<or> fst t = Submitted"
      by simp
    from Cons.IH [OF False tr1 m1(1) this] False t step m1 show ?thesis
      by simp
  qed
qed


lemma autoScrollEffect_cases:
  "autoScrollEffect status n v = debouncedScroll status v
   \<or> autoScrollEffect status n v = v\<lparr>mainScrolls := mainScrolls v + 1\<rparr>
   \<or> autoScrollEffect status n v = v"
  by (simp add: autoScrollEffect_def)

lemma timers_tracked_mainScrolls [simp]:
  "timers_tracked (v\<lparr>mainScrolls := k\<rparr>) = timers_tracked v"
  by (simp add: timers_tracked_iff)

lemma timers_wf_mainScrolls [simp]:
  "timers_wf (v\<lparr>mainScrolls := k\<rparr>) = timers_wf v"
  by (simp add: timers_wf_iff)

lemma autoScrollEffect_tracked:
  "timers_tracked v \<Longrightarrow> timers_tracked (autoScrollEffect status n v)"
  using autoScrollEffect_cases [of status n v] debouncedScroll_tracked [of v status]
  by auto

lemma debouncedScroll_wf: "timers_wf v \<Longrightarrow> timers_wf (debouncedScroll status v)"
  unfolding timers_wf_iff
  by (auto simp: debouncedScroll_tracked debouncedScroll_fields)

lemma autoScrollEffect_wf: "timers_wf v \<Longrightarrow> timers_wf (autoScrollEffect status n v)"
  using autoScrollEffect_cases [of status n v] debouncedScroll_wf [of v status]
  by auto

lemma autoScrollEffect_props [simp]:
  "props_messages (autoScrollEffect status n v) = props_messages v"
  using autoScrollEffect_cases [of status n v]
  by (auto simp: debouncedScroll_fields)

lemma reasoningScrollEffect_wf:
  assumes "timers_tracked v" and "props_messages v = messages"
  shows "timers_wf (reasoningScrollEffect messages status v)"
proof -
  have "r = messages"
    if "(tid, d, ReasoningScrollCallback r) \<in> set (timers (reasoningScrollEffect messages status v))"
    for tid d r
  proof -
    from that have "(tid, d, ReasoningScrollCallback r) \<in> set (timers v) \<and>
          Some tid \<noteq> reasoningScrollTimeoutRef v \<or> r = messages"
      by (auto simp: reasoningScrollEffect_fields)
    with assms(1) show ?thesis
      unfolding timers_tracked_iff by metis
  qed
  with assms show ?thesis
    unfolding timers_wf_iff
    by (auto simp: reasoningScrollEffect_tracked reasoningScrollEffect_fields)
qed


lemma fireTimer_cases:
  "fireTimer tid v = v
   \<or> (\<exists>d cb. (tid, d, cb) \<in> set (timers v) \<and>
         fireTimer tid v = runCallback cb (clearTimeout tid v))"
proof (cases "find (\<lambda>t. fst t = tid) (timers v)")
  case None
  then show ?thesis by (simp add: fireTimer_def)
next
  case (Some t)
  then have "t \<in> set (timers v)" "fst t = tid"
    by (auto simp: find_Some_iff)
  with Some show ?thesis
    by (cases t) (auto simp: fireTimer_def)
qed



lemma initialScrollEffect_wf: "timers_wf v \<Longrightarrow> timers_wf (initialScrollEffect b v)"
  by (simp add: initialScrollEffect_def timers_wf_iff timers_tracked_iff)



lemma mount_wf: "timers_wf (mount h messages status b)"
proof -
  define n where "n = length (memoizedMessages (h messages))"
  define v0 where "v0 = \<lparr>heap = h, props_messages = messages, props_status = status, memoizedLength = n,
                timers = [], nextTimerId = 1, scrollTimeoutRef = None,
                reasoningScrollTimeoutRef = None, messagesEndRef = (n \<noteq> 0),
                reasoningScrollRef = False, hasInitialScrolled = False,
                instantScrolls = 0, mainScrolls = 0, reasoningScrolls = 0\<rparr>"
  define v2 where
    "v2 = initialScrollEffect b (reasoningScrollEffect messages status (autoScrollEffect status n v0))"
  have m: "mount h messages status b = (if hasInitialScrolled v2 then autoScrollEffect status n v2 else v2)"
    by (simp add: mount_def Let_def v2_def v0_def n_def)
  have "timers_tracked v0" by (simp add: timers_tracked_iff v0_def)
  then have "timers_tracked (autoScrollEffect status n v0)"
    by (rule autoScrollEffect_tracked)
  moreover have "props_messages (autoScrollEffect status n v0) = messages"
    by (simp add: v0_def)
  ultimately have "timers_wf (reasoningScrollEffect messages status (autoScrollEffect status n v0))"
    by (rule reasoningScrollEffect_wf)
  then have "timers_wf v2"
    unfolding v2_def by (rule initialScrollEffect_wf)
  then show ?thesis
    by (simp add: m autoScrollEffect_wf)
qed

lemma mount_ex:
  "mount ex_heap 0 Ready True =
     \<lparr>heap = ex_heap, props_messages = 0, props_status = Ready, memoizedLength = 2,
      timers = [(1, 0, ReasoningScrollCallback 0)], nextTimerId = 2,
      scrollTimeoutRef = None, reasoningScrollTimeoutRef = Some 1,
      messagesEndRef = True, reasoningScrollRef = False,
      hasInitialScrolled = True, instantScrolls = 1, mainScrolls = 1,
      reasoningScrolls = 0\<rparr>"
  by (simp add: mount_def memoizedMessages_def autoScrollEffect_def reasoningScrollEffect_def
      initialScrollEffect_def setTimeout_def)





subsection \<open>The reasoning ref stays detached\<close>

lemma autoScrollEffect_reasoningScrollRef [simp]:
  "reasoningScrollRef (autoScrollEffect status n v) = reasoningScrollRef v"
  using autoScrollEffect_cases [of status n v]
  by (auto simp: debouncedScroll_fields)

lemma render_reasoningScrollRef [simp]:
  "reasoningScrollRef (render messages status v) = reasoningScrollRef v"
  by (simp add: render_def Let_def reasoningScrollEffect_fields)

lemma runCallback_reasoningScrollRef [simp]:
  "reasoningScrollRef (runCallback cb v) = reasoningScrollRef v"
  by (cases cb) (simp_all add: runCallback_def)

lemma fireTimer_reasoningScrollRef [simp]:
  "reasoningScrollRef (fireTimer tid v) = reasoningScrollRef v"
  using fireTimer_cases [of tid v]
  by (auto simp: clearTimeout_def)

lemma step_reasoningScrollRef [simp]:
  "reasoningScrollRef (step ev v) = reasoningScrollRef v"
  by (cases ev) simp_all

lemma run_reasoningScrollRef [simp]:
  "reasoningScrollRef (run evs v) = reasoningScrollRef v"
  unfolding run_def
  by (induction evs arbitrary: v) simp_all

lemma mount_reasoningScrollRef [simp]:
  "\<not> reasoningScrollRef (mount h messages status b)"
  by (simp add: mount_def Let_def initialScrollEffect_def reasoningScrollEffect_fields)

text \<open>
  Claim C7, as stated, fails. A view opened on an existing chat has made its scrolls of
  the first render. A render at status streaming schedules a run with delay 100; a
  render at status ready follows before that run expires. The second trigger scrolls at
  once and leaves the pending run in the table, and when the run expires it scrolls
  again: two triggers, two scroll actions.
\<close>

theorem undebounced_trigger_counterexample:
  "mainScrolls (mount ex_heap 0 Ready True) = 1
   \<and> filter isMainTimer (timers (run [Render 2 Streaming] (mount ex_heap 0 Ready True))) =
       [(2, 100, MainScrollCallback)]
   \<and> mainScrolls (run [Render 2 Streaming] (mount ex_heap 0 Ready True)) = 1
   \<and> filter isMainTimer
        (timers (run [Render 2 Streaming, Render 2 Ready] (mount ex_heap 0 Ready True))) =
       [(2, 100, MainScrollCallback)]
   \<and> mainScrolls (run [Render 2 Streaming, Render 2 Ready] (mount ex_heap 0 Ready True)) = 2
   \<and> mainScrolls (run [Render 2 Streaming, Render 2 Ready, Fire 2] (mount ex_heap 0 Ready True)) = 3"
  by (simp add: mount_ex run_def render_def memoizedMessages_def autoScrollEffect_def
      reasoningScrollEffect_def debouncedScroll_def setTimeout_def clearTimeout_def
      fireTimer_def runCallback_def isMainTimer_def)

text \<open>
  Claim C7, amended. Every run of the auto-scroll effect at status streaming or
  submitted, with the end-of-list ref attached, cancels the main scroller's pending run
  and schedules a new one, with delay 100 at status streaming and 0 at status submitted.
  After a burst of \<open>N \<ge> 1\<close> such runs exactly one main-scroller run is pending, no
  scroll has happened yet, and when that run expires exactly one scroll happens and no
  main-scroller run is left. A run of the effect at any other status is not debounced:
  it touches no timer and scrolls at once when the one-shot flag is set and the
  displayed sequence is not empty.
\<close>

theorem debounced_burst_scrolls_once:
  assumes "burst \<noteq> []"
    and "timers_tracked v"
    and "messagesEndRef v"
    and "\<forall>t \<in> set burst. fst t = Streaming \<or> fst t = Submitted"
  shows "(let v' = fold (\<lambda>(status, n). autoScrollEffect status n) burst v;
              tid = nextTimerId v + length burst - 1
          in filter isMainTimer (timers v') =
               [(tid, if fst (last burst) = Streaming then 100 else 0, MainScrollCallback)]
           \<and> mainScrolls v' = mainScrolls v
           \<and> mainScrolls (fireTimer tid v') = mainScrolls v + 1
           \<and> filter isMainTimer (timers (fireTimer tid v')) = [])
     \<and> (\<forall>status n. status \<noteq> Streaming \<and> status \<noteq> Submitted \<longrightarrow>
           autoScrollEffect status n v =
             (if hasInitialScrolled v \<and> 0 < n then v\<lparr>mainScrolls := mainScrolls v + 1\<rparr>
              else v))"
proof -
  define v' where "v' = fold (\<lambda>(status, n). autoScrollEffect status n) burst v"
  define tid where "tid = nextTimerId v + length burst - 1"
  define d :: nat where "d = (if fst (last burst) = Streaming then 100 else 0)"
  from burst_debounced [OF assms]
  have tr: "timers_tracked v'" and mounted: "messagesEndRef v'"
    and scrolls: "mainScrolls v' = mainScrolls v"
    and main: "filter isMainTimer (timers v') = [(tid, d, MainScrollCallback)]"
    by (simp_all add: v'_def tid_def d_def)
  from main have "(tid, d, MainScrollCallback) \<in> set (filter isMainTimer (timers v'))"
    by simp
  then have mem: "(tid, d, MainScrollCallback) \<in> set (timers v')"
    by simp
  have fire: "fireTimer tid v' =
      v'\<lparr>timers := filter (\<lambda>t. fst t \<noteq> tid) (timers v'), mainScrolls := mainScrolls v' + 1\<rparr>"
    using fireTimer_main [OF tr mem] mounted by simp
  have "filter isMainTimer (filter (\<lambda>t. fst t \<noteq> tid) (timers v')) =
      filter (\<lambda>t. fst t \<noteq> tid) (filter isMainTimer (timers v'))"
    by (simp add: conj_commute)
  also have "\<dots> = []"
    unfolding main by simp
  finally have none: "filter isMainTimer (timers (fireTimer tid v')) = []"
    by (simp add: fire)
  from main scrolls none fire
  have debounced: "(let v' = fold (\<lambda>(status, n). autoScrollEffect status n) burst v;
              tid = nextTimerId v + length burst - 1
          in filter isMainTimer (timers v') =
               [(tid, if fst (last burst) = Streaming then 100 else 0, MainScrollCallback)]
           \<and> mainScrolls v' = mainScrolls v
           \<and> mainScrolls (fireTimer tid v') = mainScrolls v + 1
           \<and> filter isMainTimer (timers (fireTimer tid v')) = [])"
    unfolding Let_def v'_def [symmetric] tid_def [symmetric] d_def [symmetric] by simp
  have immediate: "\<forall>status n. status \<noteq> Streaming \<and> status \<noteq> Submitted \<longrightarrow>
           autoScrollEffect status n v =
             (if hasInitialScrolled v \<and> 0 < n then v\<lparr>mainScrolls := mainScrolls v + 1\<rparr>
              else v)"
    using assms(3) by (simp add: autoScrollEffect_def)
  from debounced immediate show ?thesis by (rule conjI)
qed

theorem debounced_burst_scrolls_once_witness:
  "filter isMainTimer
      (timers (fold (\<lambda>(status, n). autoScrollEffect status n)
         [(Submitted, 3), (Streaming, 4), (Streaming, 4)] (mount ex_heap 0 Ready True))) =
     [(4, 100, MainScrollCallback)]
   \<and> mainScrolls (fold (\<lambda>(status, n). autoScrollEffect status n)
         [(Submitted, 3), (Streaming, 4), (Streaming, 4)] (mount ex_heap 0 Ready True)) = 1
   \<and> mainScrolls (fireTimer 4 (fold (\<lambda>(status, n). autoScrollEffect status n)
         [(Submitted, 3), (Streaming, 4), (Streaming, 4)] (mount ex_heap 0 Ready True))) = 2"
proof -
  let ?burst = "[(Submitted, 3), (Streaming, 4), (Streaming, 4 :: nat)]"
  have h1: "?burst \<noteq> []" by simp
  have h2: "timers_tracked (mount ex_heap 0 Ready True)"
    using mount_wf [of ex_heap 0 Ready True] by (simp add: timers_wf_iff)
  have h3: "messagesEndRef (mount ex_heap 0 Ready True)"
    by (simp add: mount_ex)
  have h4: "\<forall>t \<in> set ?burst. fst t = Streaming \<or> fst t = Submitted" by simp
  have n: "nextTimerId (mount ex_heap 0 Ready True) + length ?burst - 1 = 4"
    and m: "mainScrolls (mount ex_heap 0 Ready True) = 1"
    by (simp_all add: mount_ex)
  from debounced_burst_scrolls_once [OF h1 h2 h3 h4, THEN conjunct1] show ?thesis
    unfolding Let_def n m by simp
qed



end
